theory Spec2Isabelle
  imports Complex_Main "HOL-Library.Word"
begin

section \<open>The engine facade of the map renderer (\<open>df::DrapeEngine\<close>)\<close>

text \<open>
  The facade runs on the caller's thread. Everything it does to its collaborators (the
  thread commutator, the two renderers, the GUI and visual-parameter singletons, the
  texture manager, a blocker) is a call whose body is outside the facade; the model
  records each such call, in program order, in the field \<open>calls\<close> of the engine
  state. The facade's own fields are fields of the record.
\<close>

subsection \<open>Machine integers\<close>

text \<open>
  An \<open>int\<close> is the 32 bits of its two's complement representation, read by
  \<open>sint\<close>; a \<open>uint32_t\<close> is read by \<open>uint\<close>. The conversion of an
  \<open>int\<close> to \<open>uint32_t\<close> is the value modulo \<open>2 ^ 32\<close>.
\<close>

type_synonym int32 = "32 word"
type_synonym uint32 = "32 word"

text \<open>
  Modelled from the spec: \<open>dp::DrapeID\<close> is declared outside this file; the
  data model gives it as a 64-bit unsigned counter value.
\<close>

type_synonym DrapeID = "64 word"

definition static_cast_uint32 :: "int32 \<Rightarrow> uint32" where
  "static_cast_uint32 x = word_of_int (sint x)"

subsection \<open>Payloads\<close>

text \<open>
  A \<open>double\<close> is modelled by the real number it holds (finite values only); a
  point \<open>m2::PointD\<close> is a pair of them. The facade only stores and forwards these
  values.
\<close>

type_synonym PointD = "real \<times> real"
type_synonym TriangleD = "PointD \<times> PointD \<times> PointD"

text \<open>
  The following types are declared outside this file and the facade never looks inside
  a value of them: it moves the value into a message. A value is identified by a handle.
\<close>

datatype TWidgetsInitInfo = WidgetsInitInfo nat
datatype RouteSegment = RouteSegment nat
datatype CustomSymbols = CustomSymbols nat
datatype MwmId = MwmId nat
datatype RoadSegmentId = RoadSegmentId nat
datatype FeatureID = FeatureID nat
datatype ESelectedObject = ESelectedObject nat

text \<open>
  A blocker is a local object of the blocking operation; the message refers to it and
  the caller waits on it. The model names the object by a handle that the operation
  receives.
\<close>

datatype Blocker = Blocker nat

text \<open>
  \<open>traffic::SpeedGroup\<close>: this file names the value \<open>Unknown\<close> only; every other
  value of the enumeration is \<open>SpeedGroup n\<close>.
\<close>

datatype SpeedGroup = SpeedGroup nat | Unknown

text \<open>
  \<open>traffic::TrafficInfo\<close>: the map identifier and the colouring, a
  \<open>std::map\<close> from road segments to speed groups, kept as the list of its entries in
  iteration order. \<open>df::TrafficSegmentsColoring\<close> is a map from map identifiers to
  colourings, kept the same way.
\<close>

type_synonym Coloring = "(RoadSegmentId \<times> SpeedGroup) list"

record TrafficInfo =
  GetMwmId :: MwmId
  GetColoring :: Coloring

type_synonym TrafficSegmentsColoring = "(MwmId \<times> Coloring) list"

text \<open>
  \<open>location::EMyPositionMode\<close>: this file names three values; every other value of
  the enumeration is \<open>OtherMode n\<close>.
\<close>

datatype EMyPositionMode = PendingPosition | Follow | FollowAndRotate | OtherMode nat

subsection \<open>Messages, user events and calls on collaborators\<close>

datatype ThreadName = RenderThread | ResourceUploadThread

text \<open>
  Modelled from the spec: the priorities are declared outside this file, which uses
  \<open>High\<close> and \<open>Normal\<close>; the data model lists \<open>Low\<close> as the third lane.
\<close>

datatype MessagePriority = High | Normal | Low

datatype EChangeType = SwitchNextMode | LoseLocation | StopFollowing

datatype Message =
    GuiRecacheMessage TWidgetsInitInfo bool
  | MapShapesRecacheMessage
  | ShowChoosePositionMarkMessage
  | RecoverGLResourcesMessage
  | UpdateMapStyleMessage Blocker
  | FindVisiblePOIMessage Blocker PointD
  | GetSelectedObjectMessage Blocker
  | GetMyPositionMessage Blocker
  | ChangeMyPositionModeMessage EChangeType
  | AddRouteSegmentMessage DrapeID RouteSegment
  | AddRoutePreviewSegmentMessage DrapeID PointD PointD
  | SetAddNewPlaceModeMessage bool "TriangleD list" bool bool PointD
  | SetKineticScrollEnabledMessage bool
  | UpdateTrafficMessage TrafficSegmentsColoring
  | AddCustomSymbolsMessage CustomSymbols

text \<open>
  A message is named after its class and holds the constructor's arguments in order.
  The messages of the blocking operations also take references to the caller's answer
  variables; the model keeps the blocker and passes the answer to the operation (see
  the blocking operations below).
\<close>

datatype UserEvent = ResizeEvent int32 int32

text \<open>
  The calls the facade makes on its collaborators:
  \<^item> \<open>PostMessage\<close>: \<open>m_threadCommutator->PostMessage(thread, message, priority)\<close>;
  \<^item> \<open>Wait\<close>: \<open>blocker.Wait()\<close>;
  \<^item> \<open>FrontendAddUserEvent\<close>: \<open>m_frontend->AddUserEvent(e)\<close>;
  \<^item> \<open>DrapeGuiSetSurfaceSize w h\<close>:
    \<open>gui::DrapeGui::Instance().SetSurfaceSize(m2::PointF(w, h))\<close>, with the two
    \<open>int\<close> arguments the point is built from;
  \<^item> \<open>VisualParamsSetFontScale\<close>: \<open>VisualParams::Instance().SetFontScale(x)\<close>;
  \<^item> \<open>DrapeIdGeneratorMutexLock\<close> and \<open>DrapeIdGeneratorMutexUnlock\<close>: the lock
    guard on \<open>m_drapeIdGeneratorMutex\<close>, its construction and its destruction;
  \<^item> \<open>FrontendTeardown\<close> and \<open>BackendTeardown\<close>: \<open>m_frontend->Teardown()\<close>
    and \<open>m_backend->Teardown()\<close>;
  \<^item> \<open>ThreadCommutatorReset\<close>, \<open>FrontendReset\<close>, \<open>BackendReset\<close>:
    \<open>reset()\<close> of the owning pointer;
  \<^item> \<open>DrapeGuiDestroy\<close>: \<open>gui::DrapeGui::Instance().Destroy()\<close>;
  \<^item> \<open>TextureManagerRelease\<close>: \<open>m_textureManager->Release()\<close>.
\<close>

datatype Call =
    PostMessage ThreadName Message MessagePriority
  | Wait Blocker
  | FrontendAddUserEvent UserEvent
  | DrapeGuiSetSurfaceSize int32 int32
  | VisualParamsSetFontScale real
  | DrapeIdGeneratorMutexLock
  | DrapeIdGeneratorMutexUnlock
  | FrontendTeardown
  | BackendTeardown
  | ThreadCommutatorReset
  | FrontendReset
  | BackendReset
  | DrapeGuiDestroy
  | TextureManagerRelease

subsection \<open>The viewport\<close>

text \<open>
  Modelled from the spec: \<open>dp::Viewport\<close> is declared outside this file; the data
  model gives it an origin, a width and a height, and the facade compares its width and
  height with \<open>uint32_t\<close> values.
\<close>

record Viewport =
  m_zero :: "uint32 \<times> uint32"
  m_size :: "uint32 \<times> uint32"

definition GetWidth :: "Viewport \<Rightarrow> uint32" where
  "GetWidth v = fst (m_size v)"

definition GetHeight :: "Viewport \<Rightarrow> uint32" where
  "GetHeight v = snd (m_size v)"

definition SetViewport :: "Viewport \<Rightarrow> uint32 \<Rightarrow> uint32 \<Rightarrow> uint32 \<Rightarrow> uint32 \<Rightarrow> Viewport" where
  "SetViewport v x0 y0 w h = v\<lparr>m_zero := (x0, y0), m_size := (w, h)\<rparr>"

subsection \<open>The engine state\<close>

record DrapeEngine =
  m_viewport :: Viewport
  m_widgetsInfo :: TWidgetsInitInfo
  m_choosePositionMode :: bool
  m_kineticScrollEnabled :: bool
  m_drapeIdGenerator :: DrapeID
  calls :: "Call list"

definition call :: "DrapeEngine \<Rightarrow> Call \<Rightarrow> DrapeEngine" where
  "call s c = s\<lparr>calls := calls s @ [c]\<rparr>"

definition PostMessage_commutator ::
    "DrapeEngine \<Rightarrow> ThreadName \<Rightarrow> Message \<Rightarrow> MessagePriority \<Rightarrow> DrapeEngine" where
  "PostMessage_commutator s t m p = call s (PostMessage t m p)"

text \<open>
  An assertion of the source (\<open>ASSERT_GREATER\<close>, \<open>ASSERT_NOT_EQUAL\<close>) is checked
  in a debug build only and stops the program there; the build is the parameter
  \<open>debug\<close> of the operations that assert.
\<close>

datatype error = AssertGreaterFailed | AssertNotEqualFailed

subsection \<open>Operations\<close>

definition RecacheMapShapes :: "DrapeEngine \<Rightarrow> DrapeEngine" where
  "RecacheMapShapes s =
     PostMessage_commutator s ResourceUploadThread MapShapesRecacheMessage Normal"

definition RecacheGui :: "DrapeEngine \<Rightarrow> bool \<Rightarrow> DrapeEngine" where
  "RecacheGui s needResetOldGui =
     PostMessage_commutator s ResourceUploadThread
       (GuiRecacheMessage (m_widgetsInfo s) needResetOldGui) High"

definition AddUserEvent :: "DrapeEngine \<Rightarrow> UserEvent \<Rightarrow> DrapeEngine" where
  "AddUserEvent s e = call s (FrontendAddUserEvent e)"

definition ResizeImpl :: "DrapeEngine \<Rightarrow> int32 \<Rightarrow> int32 \<Rightarrow> DrapeEngine" where
  "ResizeImpl s w h =
     (let s1 = call s (DrapeGuiSetSurfaceSize w h);
          s2 = s1\<lparr>m_viewport :=
                 SetViewport (m_viewport s1) 0 0 (static_cast_uint32 w) (static_cast_uint32 h)\<rparr>
      in AddUserEvent s2 (ResizeEvent w h))"

definition Update :: "DrapeEngine \<Rightarrow> int32 \<Rightarrow> int32 \<Rightarrow> DrapeEngine" where
  "Update s w h =
     (let s1 = (if m_choosePositionMode s
                then PostMessage_commutator s ResourceUploadThread
                       ShowChoosePositionMarkMessage High
                else s);
          s2 = RecacheGui s1 False;
          s3 = RecacheMapShapes s2;
          s4 = PostMessage_commutator s3 RenderThread RecoverGLResourcesMessage High
      in ResizeImpl s4 w h)"

definition Resize :: "bool \<Rightarrow> DrapeEngine \<Rightarrow> int32 \<Rightarrow> int32 \<Rightarrow> error + DrapeEngine" where
  "Resize debug s w h =
     (if debug \<and> \<not> 0 < sint w then Inl AssertGreaterFailed
      else if debug \<and> \<not> 0 < sint h then Inl AssertGreaterFailed
      else if GetHeight (m_viewport s) \<noteq> static_cast_uint32 h
              \<or> GetWidth (m_viewport s) \<noteq> static_cast_uint32 w
           then Inr (ResizeImpl s w h)
           else Inr s)"

text \<open>
  The blocking operations. The render thread stores the answer in the local variables
  the message refers to and then signals the blocker; \<open>Wait\<close> returns after that.
  The operation receives the blocker's handle and the content of those variables at
  the moment \<open>Wait\<close> returns, and gives that content back.
\<close>

definition UpdateMapStyle :: "DrapeEngine \<Rightarrow> Blocker \<Rightarrow> DrapeEngine" where
  "UpdateMapStyle s blocker =
     (let s1 = PostMessage_commutator s RenderThread (UpdateMapStyleMessage blocker) High;
          s2 = call s1 (Wait blocker)
      in RecacheGui s2 False)"

definition GetVisiblePOI ::
    "DrapeEngine \<Rightarrow> Blocker \<Rightarrow> FeatureID \<Rightarrow> PointD \<Rightarrow> FeatureID \<times> DrapeEngine" where
  "GetVisiblePOI s blocker result glbPoint =
     (let s1 = PostMessage_commutator s RenderThread
                 (FindVisiblePOIMessage blocker glbPoint) High;
          s2 = call s1 (Wait blocker)
      in (result, s2))"

definition GetSelectedObject ::
    "DrapeEngine \<Rightarrow> Blocker \<Rightarrow> ESelectedObject \<Rightarrow> ESelectedObject \<times> DrapeEngine" where
  "GetSelectedObject s blocker object =
     (let s1 = PostMessage_commutator s RenderThread (GetSelectedObjectMessage blocker) High;
          s2 = call s1 (Wait blocker)
      in (object, s2))"

definition GetMyPosition ::
    "DrapeEngine \<Rightarrow> Blocker \<Rightarrow> bool \<times> PointD \<Rightarrow> (bool \<times> PointD) \<times> DrapeEngine" where
  "GetMyPosition s blocker answer =
     (let s1 = PostMessage_commutator s RenderThread (GetMyPositionMessage blocker) High;
          s2 = call s1 (Wait blocker)
      in (answer, s2))"

text \<open>
  The identifier generator. The lock guard takes the mutex on entry and gives it back
  when the function returns, after the value to return has been read.
\<close>

definition GenerateDrapeID :: "DrapeEngine \<Rightarrow> DrapeID \<times> DrapeEngine" where
  "GenerateDrapeID s =
     (let s1 = call s DrapeIdGeneratorMutexLock;
          s2 = s1\<lparr>m_drapeIdGenerator := m_drapeIdGenerator s1 + 1\<rparr>;
          result = m_drapeIdGenerator s2
      in (result, call s2 DrapeIdGeneratorMutexUnlock))"

text \<open>\<open>n\<close> calls of the generator, one after the other, with the values returned.\<close>

fun GenerateDrapeIDs :: "nat \<Rightarrow> DrapeEngine \<Rightarrow> DrapeID list \<times> DrapeEngine" where
  "GenerateDrapeIDs 0 s = ([], s)"
| "GenerateDrapeIDs (Suc n) s =
     (let (i, s1) = GenerateDrapeID s;
          (ids, s2) = GenerateDrapeIDs n s1
      in (i # ids, s2))"

text \<open>
  The same function statement by statement, for callers on several threads. A caller
  (one call of \<open>GenerateDrapeID\<close>, named by a number) is at one of five points: it
  has not taken the mutex yet; it holds the mutex; it has incremented the counter; it
  has read the counter into the value it will return; it has given the mutex back and
  returned. A step of a caller that finds the mutex taken leaves everything as it is
  (the caller waits). The generator's state is the counter, the owner of the mutex and
  the point every caller is at; a schedule is the list of the callers that take the
  next step, in order.
\<close>

datatype pc = NotStarted | HoldsLock | Incremented | ReadDone DrapeID | Returned DrapeID

record generator =
  gen_counter :: DrapeID
  gen_mutex :: "nat option"
  gen_pc :: "nat \<Rightarrow> pc"

definition caller_step :: "generator \<Rightarrow> nat \<Rightarrow> generator" where
  "caller_step g t =
     (case gen_pc g t of
        NotStarted \<Rightarrow>
          (case gen_mutex g of
             None \<Rightarrow> g\<lparr>gen_mutex := Some t, gen_pc := (gen_pc g)(t := HoldsLock)\<rparr>
           | Some _ \<Rightarrow> g)
      | HoldsLock \<Rightarrow>
          g\<lparr>gen_counter := gen_counter g + 1, gen_pc := (gen_pc g)(t := Incremented)\<rparr>
      | Incremented \<Rightarrow> g\<lparr>gen_pc := (gen_pc g)(t := ReadDone (gen_counter g))\<rparr>
      | ReadDone r \<Rightarrow> g\<lparr>gen_mutex := None, gen_pc := (gen_pc g)(t := Returned r)\<rparr>
      | Returned r \<Rightarrow> g)"

fun run_callers :: "generator \<Rightarrow> nat list \<Rightarrow> generator" where
  "run_callers g [] = g"
| "run_callers g (t # ts) = run_callers (caller_step g t) ts"

text \<open>
  The number of identifiers a schedule issues: the number of its steps that execute the
  increment.
\<close>

fun identifiers_issued :: "generator \<Rightarrow> nat list \<Rightarrow> nat" where
  "identifiers_issued g [] = 0"
| "identifiers_issued g (t # ts) =
     (if gen_pc g t = HoldsLock then 1 else 0) + identifiers_issued (caller_step g t) ts"

definition init_generator :: "DrapeID \<Rightarrow> generator" where
  "init_generator c = \<lparr>gen_counter = c, gen_mutex = None, gen_pc = (\<lambda>_. NotStarted)\<rparr>"

definition in_critical_section :: "pc \<Rightarrow> bool" where
  "in_critical_section p =
     (case p of HoldsLock \<Rightarrow> True | Incremented \<Rightarrow> True | ReadDone _ \<Rightarrow> True | _ \<Rightarrow> False)"

definition after_increment :: "pc \<Rightarrow> bool" where
  "after_increment p = (case p of Incremented \<Rightarrow> True | ReadDone _ \<Rightarrow> True | _ \<Rightarrow> False)"

text \<open>
  The invariants of the generator, for the proofs. The first: the owner of the mutex is
  the one caller inside the critical section. The second, for a generator that started
  with the counter \<open>c0\<close> and has incremented it \<open>k\<close> times: the counter is
  \<open>c0 + k\<close> modulo \<open>2 ^ 64\<close>; a value read inside the critical section is the
  counter; a value returned is \<open>c0 + j\<close> for an increment \<open>j\<close> of the \<open>k\<close>,
  an earlier one while some caller has incremented and not yet released; no two callers
  have returned the same value.
\<close>

definition mutex_inv :: "nat option \<Rightarrow> (nat \<Rightarrow> pc) \<Rightarrow> bool" where
  "mutex_inv owner pcs \<longleftrightarrow> (\<forall>t. (owner = Some t) = in_critical_section (pcs t))"

definition issued_inv :: "DrapeID \<Rightarrow> nat \<Rightarrow> DrapeID \<Rightarrow> (nat \<Rightarrow> pc) \<Rightarrow> bool" where
  "issued_inv c0 k c pcs \<longleftrightarrow>
     c = c0 + of_nat k
   \<and> (\<forall>u. after_increment (pcs u) \<longrightarrow> 0 < k)
   \<and> (\<forall>t r. pcs t = ReadDone r \<longrightarrow> r = c)
   \<and> (\<forall>t r. pcs t = Returned r \<longrightarrow> (\<exists>j. 0 < j \<and> j \<le> k \<and> r = c0 + of_nat j))
   \<and> (\<forall>t u r. after_increment (pcs u) \<and> pcs t = Returned r \<longrightarrow>
                (\<exists>j. 0 < j \<and> j < k \<and> r = c0 + of_nat j))
   \<and> (\<forall>t u r. pcs t = Returned r \<and> pcs u = Returned r \<longrightarrow> t = u)"

definition gen_inv :: "DrapeID \<Rightarrow> nat \<Rightarrow> generator \<Rightarrow> bool" where
  "gen_inv c0 k g \<longleftrightarrow>
     mutex_inv (gen_mutex g) (gen_pc g) \<and> issued_inv c0 k (gen_counter g) (gen_pc g)"

definition AddRouteSegment :: "DrapeEngine \<Rightarrow> RouteSegment \<Rightarrow> DrapeID \<times> DrapeEngine" where
  "AddRouteSegment s segment =
     (let (i, s1) = GenerateDrapeID s
      in (i, PostMessage_commutator s1 ResourceUploadThread
                (AddRouteSegmentMessage i segment) Normal))"

definition AddRoutePreviewSegment ::
    "DrapeEngine \<Rightarrow> PointD \<Rightarrow> PointD \<Rightarrow> DrapeID \<times> DrapeEngine" where
  "AddRoutePreviewSegment s startPt finishPt =
     (let (i, s1) = GenerateDrapeID s
      in (i, PostMessage_commutator s1 RenderThread
                (AddRoutePreviewSegmentMessage i startPt finishPt) Normal))"

definition AddCustomSymbols :: "DrapeEngine \<Rightarrow> CustomSymbols \<Rightarrow> DrapeEngine" where
  "AddCustomSymbols s symbols =
     PostMessage_commutator s ResourceUploadThread (AddCustomSymbolsMessage symbols) Normal"

definition StopLocationFollow :: "DrapeEngine \<Rightarrow> DrapeEngine" where
  "StopLocationFollow s =
     PostMessage_commutator s RenderThread (ChangeMyPositionModeMessage StopFollowing) High"

definition EnableChoosePositionMode ::
    "DrapeEngine \<Rightarrow> bool \<Rightarrow> TriangleD list \<Rightarrow> bool \<Rightarrow> PointD \<Rightarrow> DrapeEngine" where
  "EnableChoosePositionMode s enable boundAreaTriangles hasPosition position =
     (let s1 = s\<lparr>m_choosePositionMode := enable\<rparr>;
          kineticScroll = m_kineticScrollEnabled s1;
          (s2, kineticScroll) =
            (if enable
             then (PostMessage_commutator (StopLocationFollow s1) ResourceUploadThread
                     ShowChoosePositionMarkMessage High,
                   False)
             else (RecacheGui s1 True, kineticScroll))
      in PostMessage_commutator s2 RenderThread
           (SetAddNewPlaceModeMessage enable boundAreaTriangles kineticScroll
              hasPosition position) High)"

definition SetKineticScrollEnabled :: "DrapeEngine \<Rightarrow> bool \<Rightarrow> DrapeEngine" where
  "SetKineticScrollEnabled s enabled =
     (let s1 = s\<lparr>m_kineticScrollEnabled := enabled\<rparr>
      in if m_choosePositionMode s1 then s1
         else PostMessage_commutator s1 RenderThread
                (SetKineticScrollEnabledMessage (m_kineticScrollEnabled s1)) High)"

text \<open>The debug loop of \<open>UpdateTraffic\<close> over the entries of the colouring.\<close>

fun assert_no_unknown :: "Coloring \<Rightarrow> error + unit" where
  "assert_no_unknown [] = Inr ()"
| "assert_no_unknown (segmentPair # rest) =
     (if snd segmentPair \<noteq> Unknown then assert_no_unknown rest
      else Inl AssertNotEqualFailed)"

definition UpdateTraffic :: "bool \<Rightarrow> DrapeEngine \<Rightarrow> TrafficInfo \<Rightarrow> error + DrapeEngine" where
  "UpdateTraffic debug s info =
     (if GetColoring info = [] then Inr s
      else
        case (if debug then assert_no_unknown (GetColoring info) else Inr ()) of
          Inl e \<Rightarrow> Inl e
        | Inr _ \<Rightarrow>
            (let segmentsColoring = [(GetMwmId info, GetColoring info)]
             in Inr (PostMessage_commutator s ResourceUploadThread
                       (UpdateTrafficMessage segmentsColoring) Normal)))"

text \<open>
  Modelled from the spec: \<open>my::clamp\<close> is defined outside this file. Clamping to a
  range gives the maximum for a value above it, the minimum for a value below it, and
  the value itself otherwise.
\<close>

definition clamp :: "real \<Rightarrow> real \<Rightarrow> real \<Rightarrow> real" where
  "clamp x xmin xmax = (if x > xmax then xmax else if x < xmin then xmin else x)"

definition kMinScaleFactor :: real where
  "kMinScaleFactor = 0.5"

definition kMaxScaleFactor :: real where
  "kMaxScaleFactor = 2.0"

definition SetFontScaleFactor :: "DrapeEngine \<Rightarrow> real \<Rightarrow> DrapeEngine" where
  "SetFontScaleFactor s scaleFactor =
     (let scaleFactor = clamp scaleFactor kMinScaleFactor kMaxScaleFactor
      in call s (VisualParamsSetFontScale scaleFactor))"

text \<open>The destructor: the statements of its body, in order.\<close>

definition destructor :: "DrapeEngine \<Rightarrow> DrapeEngine" where
  "destructor s =
     (let s1 = call s FrontendTeardown;
          s2 = call s1 BackendTeardown;
          s3 = call s2 ThreadCommutatorReset;
          s4 = call s3 FrontendReset;
          s5 = call s4 BackendReset;
          s6 = call s5 DrapeGuiDestroy
      in call s6 TextureManagerRelease)"

text \<open>
  The constructor's choice of the initial position mode from
  \<open>params.m_initialMyPositionMode\<close>, a pair of a mode and the flag that says whether
  it was supplied. The stored settings are outside the facade: \<open>settings::Get\<close> of
  a key is \<open>None\<close> when it returns false and the stored value, which it writes to
  its second argument, when it returns true. The stored mode is read only when no mode
  was supplied (\<open>&&\<close> does not evaluate its right side otherwise), and the world
  test only when the rectangle was found. The screen rectangle is an opaque value;
  \<open>inWorld rect\<close> stands for
  \<open>df::GetWorldRect().IsRectInside(rect.GetGlobalRect())\<close>.
\<close>

datatype AnyRectD = AnyRectD nat

record Settings =
  kLocationStateMode :: "EMyPositionMode option"
  ScreenClipRect :: "AnyRectD option"

definition initialMyPositionMode ::
    "(AnyRectD \<Rightarrow> bool) \<Rightarrow> Settings \<Rightarrow> EMyPositionMode \<times> bool \<Rightarrow> EMyPositionMode" where
  "initialMyPositionMode inWorld settings m_initialMyPositionMode =
     (case (if snd m_initialMyPositionMode then Some (fst m_initialMyPositionMode)
            else kLocationStateMode settings) of
        None \<Rightarrow> PendingPosition
      | Some mode \<Rightarrow>
          if mode = FollowAndRotate
          then (case ScreenClipRect settings of
                  None \<Rightarrow> Follow
                | Some rect \<Rightarrow> if inWorld rect then mode else Follow)
          else mode)"

text \<open>A concrete engine state, for evaluating the operations.\<close>

definition engine0 :: DrapeEngine where
  "engine0 =
     \<lparr>m_viewport = \<lparr>m_zero = (0, 0), m_size = (800, 600)\<rparr>,
      m_widgetsInfo = WidgetsInitInfo 0,
      m_choosePositionMode = False,
      m_kineticScrollEnabled = True,
      m_drapeIdGenerator = 0,
      calls = []\<rparr>"

section \<open>Properties\<close>

lemmas facade_defs =
  call_def PostMessage_commutator_def RecacheGui_def RecacheMapShapes_def AddUserEvent_def
  ResizeImpl_def SetViewport_def GetWidth_def GetHeight_def StopLocationFollow_def

subsection \<open>Blocking operations\<close>

text \<open>
  C1. Each of the four blocking operations (\<open>UpdateMapStyle\<close>, \<open>GetVisiblePOI\<close>,
  \<open>GetSelectedObject\<close>, \<open>GetMyPosition\<close>) posts the message that carries its
  blocker to the render thread at high priority, then waits on that blocker once, and
  only then returns: the calls it adds are exactly the post followed by the wait
  (followed, for the style update alone, by the GUI recache), and the value it returns
  is the content of the answer variables after the wait.
\<close>

theorem blocking_operations_post_high_then_wait_once:
  "calls (UpdateMapStyle s b) =
     calls s @ [PostMessage RenderThread (UpdateMapStyleMessage b) High,
                Wait b,
                PostMessage ResourceUploadThread
                  (GuiRecacheMessage (m_widgetsInfo s) False) High]
   \<and> GetVisiblePOI s b result glbPoint =
       (result,
        s\<lparr>calls := calls s @ [PostMessage RenderThread (FindVisiblePOIMessage b glbPoint) High,
                              Wait b]\<rparr>)
   \<and> GetSelectedObject s b object =
       (object,
        s\<lparr>calls := calls s @ [PostMessage RenderThread (GetSelectedObjectMessage b) High,
                              Wait b]\<rparr>)
   \<and> GetMyPosition s b answer =
       (answer,
        s\<lparr>calls := calls s @ [PostMessage RenderThread (GetMyPositionMessage b) High,
                              Wait b]\<rparr>)"
  by (simp add: UpdateMapStyle_def GetVisiblePOI_def GetSelectedObject_def GetMyPosition_def
      facade_defs Let_def)

theorem blocking_operations_witness:
  "calls (UpdateMapStyle engine0 (Blocker 1)) =
     [PostMessage RenderThread (UpdateMapStyleMessage (Blocker 1)) High,
      Wait (Blocker 1),
      PostMessage ResourceUploadThread (GuiRecacheMessage (WidgetsInitInfo 0) False) High]
   \<and> calls (snd (GetMyPosition engine0 (Blocker 2) (True, (3, 4)))) =
     [PostMessage RenderThread (GetMyPositionMessage (Blocker 2)) High, Wait (Blocker 2)]
   \<and> count_list (calls (snd (GetVisiblePOI engine0 (Blocker 3) (FeatureID 7) (0, 0))))
         (Wait (Blocker 3)) = 1"
  using blocking_operations_post_high_then_wait_once
    [of engine0 "Blocker 1" "FeatureID 7" "(0, 0)" "ESelectedObject 0" "(True, (3, 4))"]
    blocking_operations_post_high_then_wait_once
    [of engine0 "Blocker 2" "FeatureID 7" "(0, 0)" "ESelectedObject 0" "(True, (3, 4))"]
    blocking_operations_post_high_then_wait_once
    [of engine0 "Blocker 3" "FeatureID 7" "(0, 0)" "ESelectedObject 0" "(True, (3, 4))"]
  by (simp add: engine0_def)

subsection \<open>The identifier generator\<close>

lemma GenerateDrapeID_fst: "fst (GenerateDrapeID s) = m_drapeIdGenerator s + 1"
  by (simp add: GenerateDrapeID_def call_def Let_def)

lemma GenerateDrapeID_snd:
  "snd (GenerateDrapeID s) =
     s\<lparr>m_drapeIdGenerator := m_drapeIdGenerator s + 1,
       calls := calls s @ [DrapeIdGeneratorMutexLock, DrapeIdGeneratorMutexUnlock]\<rparr>"
  by (simp add: GenerateDrapeID_def call_def Let_def)

lemma GenerateDrapeIDs_length: "length (fst (GenerateDrapeIDs n s)) = n"
  by (induction n arbitrary: s) (simp_all add: split_beta Let_def)

text \<open>The \<open>i\<close>-th of \<open>n\<close> successive calls returns the counter plus \<open>i + 1\<close>, modulo \<open>2 ^ 64\<close>.\<close>

lemma GenerateDrapeIDs_nth:
  "i < n \<Longrightarrow> fst (GenerateDrapeIDs n s) ! i = m_drapeIdGenerator s + 1 + of_nat i"
proof (induction n arbitrary: s i)
  case 0
  then show ?case by simp
next
  case (Suc n)
  show ?case
  proof (cases i)
    case 0
    then show ?thesis by (simp add: split_beta Let_def GenerateDrapeID_fst)
  next
    case (Suc j)
    with Suc.prems have "j < n" by simp
    from Suc.IH [OF this, of "snd (GenerateDrapeID s)"] Suc show ?thesis
      by (simp add: split_beta Let_def GenerateDrapeID_snd)
  qed
qed

lemma unat_incr:
  fixes c :: "64 word"
  assumes "unat c + 1 < 2 ^ 64"
  shows "unat (c + 1) = unat c + 1"
proof -
  have "unat c + unat (1 :: 64 word) < 2 ^ LENGTH(64)" using assms by simp
  then have "unat (c + 1) = unat c + unat (1 :: 64 word)" by (simp only: unat_add_lem)
  then show ?thesis by simp
qed

lemma GenerateDrapeIDs_increasing:
  "unat (m_drapeIdGenerator s) + n < 2 ^ 64 \<Longrightarrow>
     sorted_wrt (<) (fst (GenerateDrapeIDs n s))
     \<and> (\<forall>i \<in> set (fst (GenerateDrapeIDs n s)). m_drapeIdGenerator s < i)"
proof (induction n arbitrary: s)
  case 0
  then show ?case by simp
next
  case (Suc n)
  let ?c = "m_drapeIdGenerator s"
  let ?s1 = "snd (GenerateDrapeID s)"
  from Suc.prems have small: "unat ?c + 1 < 2 ^ 64" by simp
  then have step: "unat (?c + 1) = unat ?c + 1" by (rule unat_incr)
  then have less: "?c < ?c + 1" by (simp add: word_less_nat_alt)
  have c1: "m_drapeIdGenerator ?s1 = ?c + 1" by (simp add: GenerateDrapeID_snd)
  from Suc.prems step have "unat (m_drapeIdGenerator ?s1) + n < 2 ^ 64" by (simp add: c1)
  from Suc.IH [OF this]
  have ih: "sorted_wrt (<) (fst (GenerateDrapeIDs n ?s1))"
    and above: "\<forall>i \<in> set (fst (GenerateDrapeIDs n ?s1)). ?c + 1 < i"
    by (simp_all add: c1)
  have ids: "fst (GenerateDrapeIDs (Suc n) s) = (?c + 1) # fst (GenerateDrapeIDs n ?s1)"
    by (simp add: split_beta Let_def GenerateDrapeID_fst)
  from above less have "\<forall>i \<in> set (fst (GenerateDrapeIDs n ?s1)). ?c < i" by auto
  with ih above less show ?case unfolding ids by simp
qed

text \<open>The generator under concurrent callers.\<close>

lemma crit_simps [simp]:
  "in_critical_section NotStarted = False"
  "in_critical_section HoldsLock = True"
  "in_critical_section Incremented = True"
  "in_critical_section (ReadDone r) = True"
  "in_critical_section (Returned r) = False"
  by (simp_all add: in_critical_section_def)

lemma after_simps [simp]:
  "after_increment NotStarted = False"
  "after_increment HoldsLock = False"
  "after_increment Incremented = True"
  "after_increment (ReadDone r) = True"
  "after_increment (Returned r) = False"
  by (simp_all add: after_increment_def)

lemma after_increment_critical: "after_increment p \<Longrightarrow> in_critical_section p"
  by (cases p) simp_all

text \<open>Mutual exclusion, for every step.\<close>

lemma mutex_inv_step:
  assumes "mutex_inv (gen_mutex g) (gen_pc g)"
  shows "mutex_inv (gen_mutex (caller_step g t)) (gen_pc (caller_step g t))"
proof -
  from assms have own: "\<And>x. (gen_mutex g = Some x) = in_critical_section (gen_pc g x)"
    by (simp add: mutex_inv_def)
  show ?thesis
  proof (cases "gen_pc g t")
    case NotStarted
    show ?thesis
    proof (cases "gen_mutex g")
      case None
      with own have free: "\<And>x. \<not> in_critical_section (gen_pc g x)" by simp
      from None NotStarted free show ?thesis
        by (auto simp: caller_step_def mutex_inv_def)
    next
      case (Some u)
      with NotStarted assms show ?thesis by (simp add: caller_step_def)
    qed
  next
    case HoldsLock
    with own [of t] have t: "gen_mutex g = Some t" by simp
    with HoldsLock own show ?thesis by (auto simp: caller_step_def mutex_inv_def)
  next
    case Incremented
    with own [of t] have t: "gen_mutex g = Some t" by simp
    with Incremented own show ?thesis by (auto simp: caller_step_def mutex_inv_def)
  next
    case (ReadDone r)
    with own [of t] have t: "gen_mutex g = Some t" by simp
    have other: "\<not> in_critical_section (gen_pc g x)" if "x \<noteq> t" for x
      using own [of x] t that by auto
    from ReadDone other show ?thesis by (auto simp: caller_step_def mutex_inv_def)
  next
    case (Returned r)
    with assms show ?thesis by (simp add: caller_step_def)
  qed
qed

lemma mutex_inv_run:
  "mutex_inv (gen_mutex g) (gen_pc g) \<Longrightarrow>
     mutex_inv (gen_mutex (run_callers g sched)) (gen_pc (run_callers g sched))"
  by (induction sched arbitrary: g) (simp_all add: mutex_inv_step)

lemma mutex_inv_init: "mutex_inv (gen_mutex (init_generator c)) (gen_pc (init_generator c))"
  by (simp add: mutex_inv_def init_generator_def)

lemma one_caller_in_critical_section:
  assumes "in_critical_section (gen_pc (run_callers (init_generator c) sched) t)"
    and "in_critical_section (gen_pc (run_callers (init_generator c) sched) u)"
  shows "t = u"
proof -
  let ?g = "run_callers (init_generator c) sched"
  have "mutex_inv (gen_mutex ?g) (gen_pc ?g)" by (rule mutex_inv_run [OF mutex_inv_init])
  then have "\<And>x. (gen_mutex ?g = Some x) = in_critical_section (gen_pc ?g x)"
    by (simp add: mutex_inv_def)
  from this [of t] this [of u] assms show ?thesis by simp
qed

text \<open>The values issued.\<close>

lemma of_nat_neq_below:
  assumes "0 < j" and "j < k" and "k \<le> 2 ^ 64"
  shows "(of_nat j :: 64 word) \<noteq> of_nat k"
proof
  assume "(of_nat j :: 64 word) = of_nat k"
  then have "unat (of_nat j :: 64 word) = unat (of_nat k :: 64 word)" by simp
  then have eq: "j mod 2 ^ 64 = k mod 2 ^ 64" by (simp add: unat_of_nat)
  from assms have "j mod 2 ^ 64 = j" by simp
  moreover have "k mod 2 ^ 64 = k \<or> k mod 2 ^ 64 = 0"
  proof (cases "k = 2 ^ 64")
    case True
    then show ?thesis by simp
  next
    case False
    with assms(3) have "k < 2 ^ 64" by simp
    then show ?thesis by simp
  qed
  ultimately show False using eq assms by auto
qed

lemma mutex_inv_one:
  "mutex_inv owner pcs \<Longrightarrow> in_critical_section (pcs t) \<Longrightarrow> in_critical_section (pcs u)
     \<Longrightarrow> t = u"
  unfolding mutex_inv_def by (metis option.inject)

lemma issued_inv_acquire:
  assumes "issued_inv c0 k c pcs" and "pcs t = NotStarted"
  shows "issued_inv c0 k c (pcs(t := HoldsLock))"
proof -
  from assms(1) have
    c: "c = c0 + of_nat k" and
    pos: "\<And>u. after_increment (pcs u) \<Longrightarrow> 0 < k" and
    rd: "\<And>x r. pcs x = ReadDone r \<Longrightarrow> r = c" and
    v1: "\<And>x r. pcs x = Returned r \<Longrightarrow> \<exists>j. 0 < j \<and> j \<le> k \<and> r = c0 + of_nat j" and
    v2: "\<And>x u r. after_increment (pcs u) \<Longrightarrow> pcs x = Returned r
           \<Longrightarrow> \<exists>j. 0 < j \<and> j < k \<and> r = c0 + of_nat j" and
    inj: "\<And>x u r. pcs x = Returned r \<Longrightarrow> pcs u = Returned r \<Longrightarrow> x = u"
    unfolding issued_inv_def by blast+
  show ?thesis
    unfolding issued_inv_def
  proof (intro conjI allI impI)
    show "c = c0 + of_nat k" by (rule c)
  next
    fix u assume "after_increment ((pcs(t := HoldsLock)) u)"
    then have "after_increment (pcs u)" by (simp split: if_splits)
    then show "0 < k" by (rule pos)
  next
    fix x r assume "(pcs(t := HoldsLock)) x = ReadDone r"
    then have "pcs x = ReadDone r" by (simp split: if_splits)
    then show "r = c" by (rule rd)
  next
    fix x r assume "(pcs(t := HoldsLock)) x = Returned r"
    then have "pcs x = Returned r" by (simp split: if_splits)
    then show "\<exists>j. 0 < j \<and> j \<le> k \<and> r = c0 + of_nat j" by (rule v1)
  next
    fix x u r
    assume a: "after_increment ((pcs(t := HoldsLock)) u) \<and> (pcs(t := HoldsLock)) x = Returned r"
    then have "after_increment (pcs u)" by (simp split: if_splits)
    moreover from a have "pcs x = Returned r" by (simp split: if_splits)
    ultimately show "\<exists>j. 0 < j \<and> j < k \<and> r = c0 + of_nat j" by (rule v2)
  next
    fix x u r
    assume "(pcs(t := HoldsLock)) x = Returned r \<and> (pcs(t := HoldsLock)) u = Returned r"
    then have "pcs x = Returned r" "pcs u = Returned r" by (simp_all split: if_splits)
    then show "x = u" by (rule inj)
  qed
qed

lemma issued_inv_increment:
  assumes "mutex_inv owner pcs" and "issued_inv c0 k c pcs" and "pcs t = HoldsLock"
  shows "issued_inv c0 (k + 1) (c + 1) (pcs(t := Incremented))"
proof -
  from assms(2) have
    c: "c = c0 + of_nat k" and
    v1: "\<And>x r. pcs x = Returned r \<Longrightarrow> \<exists>j. 0 < j \<and> j \<le> k \<and> r = c0 + of_nat j" and
    inj: "\<And>x u r. pcs x = Returned r \<Longrightarrow> pcs u = Returned r \<Longrightarrow> x = u"
    unfolding issued_inv_def by blast+
  show ?thesis
    unfolding issued_inv_def
  proof (intro conjI allI impI)
    show "c + 1 = c0 + of_nat (k + 1)" using c by simp
  next
    fix u show "0 < k + 1" by simp
  next
    fix x r assume "(pcs(t := Incremented)) x = ReadDone r"
    then have "x \<noteq> t" "pcs x = ReadDone r" by (simp_all split: if_splits)
    with mutex_inv_one [OF assms(1), of x t] assms(3) show "r = c + 1" by simp
  next
    fix x r assume "(pcs(t := Incremented)) x = Returned r"
    then have "pcs x = Returned r" by (simp split: if_splits)
    from v1 [OF this] show "\<exists>j. 0 < j \<and> j \<le> k + 1 \<and> r = c0 + of_nat j" by auto
  next
    fix x u r
    assume "after_increment ((pcs(t := Incremented)) u) \<and> (pcs(t := Incremented)) x = Returned r"
    then have "pcs x = Returned r" by (simp split: if_splits)
    from v1 [OF this] show "\<exists>j. 0 < j \<and> j < k + 1 \<and> r = c0 + of_nat j" by auto
  next
    fix x u r
    assume "(pcs(t := Incremented)) x = Returned r \<and> (pcs(t := Incremented)) u = Returned r"
    then have "pcs x = Returned r" "pcs u = Returned r" by (simp_all split: if_splits)
    then show "x = u" by (rule inj)
  qed
qed

lemma issued_inv_read:
  assumes "issued_inv c0 k c pcs" and "pcs t = Incremented"
  shows "issued_inv c0 k c (pcs(t := ReadDone c))"
proof -
  from assms(1) have
    c: "c = c0 + of_nat k" and
    pos: "\<And>u. after_increment (pcs u) \<Longrightarrow> 0 < k" and
    rd: "\<And>x r. pcs x = ReadDone r \<Longrightarrow> r = c" and
    v1: "\<And>x r. pcs x = Returned r \<Longrightarrow> \<exists>j. 0 < j \<and> j \<le> k \<and> r = c0 + of_nat j" and
    v2: "\<And>x u r. after_increment (pcs u) \<Longrightarrow> pcs x = Returned r
           \<Longrightarrow> \<exists>j. 0 < j \<and> j < k \<and> r = c0 + of_nat j" and
    inj: "\<And>x u r. pcs x = Returned r \<Longrightarrow> pcs u = Returned r \<Longrightarrow> x = u"
    unfolding issued_inv_def by blast+
  from assms(2) have aft: "after_increment (pcs t)" by simp
  show ?thesis
    unfolding issued_inv_def
  proof (intro conjI allI impI)
    show "c = c0 + of_nat k" by (rule c)
  next
    fix u show "0 < k" using pos [OF aft] .
  next
    fix x r assume "(pcs(t := ReadDone c)) x = ReadDone r"
    then show "r = c" using rd [of x r] by (simp split: if_splits)
  next
    fix x r assume "(pcs(t := ReadDone c)) x = Returned r"
    then have "pcs x = Returned r" by (simp split: if_splits)
    then show "\<exists>j. 0 < j \<and> j \<le> k \<and> r = c0 + of_nat j" by (rule v1)
  next
    fix x u r
    assume "after_increment ((pcs(t := ReadDone c)) u) \<and> (pcs(t := ReadDone c)) x = Returned r"
    then have "pcs x = Returned r" by (simp split: if_splits)
    from v2 [OF aft this] show "\<exists>j. 0 < j \<and> j < k \<and> r = c0 + of_nat j" .
  next
    fix x u r
    assume "(pcs(t := ReadDone c)) x = Returned r \<and> (pcs(t := ReadDone c)) u = Returned r"
    then have "pcs x = Returned r" "pcs u = Returned r" by (simp_all split: if_splits)
    then show "x = u" by (rule inj)
  qed
qed

lemma issued_inv_release:
  assumes "mutex_inv owner pcs" and "issued_inv c0 k c pcs" and "pcs t = ReadDone r0"
    and "k \<le> 2 ^ 64"
  shows "issued_inv c0 k c (pcs(t := Returned r0))"
proof -
  from assms(2) have
    c: "c = c0 + of_nat k" and
    pos: "\<And>u. after_increment (pcs u) \<Longrightarrow> 0 < k" and
    rd: "\<And>x r. pcs x = ReadDone r \<Longrightarrow> r = c" and
    v1: "\<And>x r. pcs x = Returned r \<Longrightarrow> \<exists>j. 0 < j \<and> j \<le> k \<and> r = c0 + of_nat j" and
    v2: "\<And>x u r. after_increment (pcs u) \<Longrightarrow> pcs x = Returned r
           \<Longrightarrow> \<exists>j. 0 < j \<and> j < k \<and> r = c0 + of_nat j" and
    inj: "\<And>x u r. pcs x = Returned r \<Longrightarrow> pcs u = Returned r \<Longrightarrow> x = u"
    unfolding issued_inv_def by blast+
  from assms(3) have aft: "after_increment (pcs t)" and crit: "in_critical_section (pcs t)"
    by simp_all
  from rd [OF assms(3)] c have r0: "r0 = c0 + of_nat k" by simp
  from pos [OF aft] have k: "0 < k" .
  have nobody: "\<not> after_increment ((pcs(t := Returned r0)) u)" for u
  proof
    assume a: "after_increment ((pcs(t := Returned r0)) u)"
    then have "u \<noteq> t" "after_increment (pcs u)" by (simp_all split: if_splits)
    with mutex_inv_one [OF assms(1) _ crit, of u] after_increment_critical [of "pcs u"]
    show False by simp
  qed
  have differs: "r \<noteq> r0" if "pcs x = Returned r" for x r
  proof
    assume "r = r0"
    from v2 [OF aft that] obtain j where j: "0 < j" "j < k" "r = c0 + of_nat j" by blast
    with \<open>r = r0\<close> r0 have "(of_nat j :: 64 word) = of_nat k" by simp
    with of_nat_neq_below [OF j(1,2) assms(4)] show False by simp
  qed
  show ?thesis
    unfolding issued_inv_def
  proof (intro conjI allI impI)
    show "c = c0 + of_nat k" by (rule c)
  next
    fix u assume "after_increment ((pcs(t := Returned r0)) u)"
    with nobody [of u] show "0 < k" by simp
  next
    fix x r assume "(pcs(t := Returned r0)) x = ReadDone r"
    then show "r = c" using rd [of x r] by (simp split: if_splits)
  next
    fix x r assume a: "(pcs(t := Returned r0)) x = Returned r"
    show "\<exists>j. 0 < j \<and> j \<le> k \<and> r = c0 + of_nat j"
    proof (cases "x = t")
      case True
      with a r0 k show ?thesis by auto
    next
      case False
      with a have "pcs x = Returned r" by simp
      then show ?thesis by (rule v1)
    qed
  next
    fix x u r
    assume "after_increment ((pcs(t := Returned r0)) u) \<and> (pcs(t := Returned r0)) x = Returned r"
    with nobody [of u] show "\<exists>j. 0 < j \<and> j < k \<and> r = c0 + of_nat j" by simp
  next
    fix x u r
    assume a: "(pcs(t := Returned r0)) x = Returned r \<and> (pcs(t := Returned r0)) u = Returned r"
    show "x = u"
    proof (cases "x = t")
      case xt: True
      show ?thesis
      proof (cases "u = t")
        case True
        with xt show ?thesis by simp
      next
        case False
        with a have "pcs u = Returned r" by simp
        from differs [OF this] xt a show ?thesis by simp
      qed
    next
      case xt: False
      with a have x: "pcs x = Returned r" by simp
      show ?thesis
      proof (cases "u = t")
        case True
        with a differs [OF x] show ?thesis by simp
      next
        case False
        with a have "pcs u = Returned r" by simp
        with x show ?thesis by (rule inj)
      qed
    qed
  qed
qed

lemma gen_inv_init: "gen_inv c 0 (init_generator c)"
  by (simp add: gen_inv_def mutex_inv_def issued_inv_def init_generator_def)

lemma gen_inv_step:
  assumes "gen_inv c0 k g"
    and "k + (if gen_pc g t = HoldsLock then 1 else 0) \<le> 2 ^ 64"
  shows "gen_inv c0 (k + (if gen_pc g t = HoldsLock then 1 else 0)) (caller_step g t)"
proof -
  from assms(1) have m: "mutex_inv (gen_mutex g) (gen_pc g)"
    and i: "issued_inv c0 k (gen_counter g) (gen_pc g)"
    by (simp_all add: gen_inv_def)
  have m': "mutex_inv (gen_mutex (caller_step g t)) (gen_pc (caller_step g t))"
    using m by (rule mutex_inv_step)
  have "issued_inv c0 (k + (if gen_pc g t = HoldsLock then 1 else 0))
          (gen_counter (caller_step g t)) (gen_pc (caller_step g t))"
  proof (cases "gen_pc g t")
    case NotStarted
    show ?thesis
    proof (cases "gen_mutex g")
      case None
      with NotStarted issued_inv_acquire [OF i NotStarted] show ?thesis
        by (simp add: caller_step_def)
    next
      case (Some u)
      with NotStarted i show ?thesis by (simp add: caller_step_def)
    qed
  next
    case HoldsLock
    with issued_inv_increment [OF m i HoldsLock] show ?thesis
      by (simp add: caller_step_def)
  next
    case Incremented
    with issued_inv_read [OF i Incremented] show ?thesis
      by (simp add: caller_step_def)
  next
    case (ReadDone r)
    from assms(2) ReadDone have "k \<le> 2 ^ 64" by simp
    from issued_inv_release [OF m i ReadDone this] ReadDone show ?thesis
      by (simp add: caller_step_def)
  next
    case (Returned r)
    with i show ?thesis by (simp add: caller_step_def)
  qed
  with m' show ?thesis by (simp add: gen_inv_def)
qed

lemma gen_inv_run:
  assumes "gen_inv c0 k g" and "k + identifiers_issued g sched \<le> 2 ^ 64"
  shows "gen_inv c0 (k + identifiers_issued g sched) (run_callers g sched)"
  using assms
proof (induction sched arbitrary: g k)
  case Nil
  then show ?case by simp
next
  case (Cons t ts)
  let ?d = "if gen_pc g t = HoldsLock then 1 else 0 :: nat"
  from Cons.prems(2) have "k + ?d \<le> 2 ^ 64" by simp
  from gen_inv_step [OF Cons.prems(1) this]
  have inv': "gen_inv c0 (k + ?d) (caller_step g t)" .
  from Cons.prems(2) have "(k + ?d) + identifiers_issued (caller_step g t) ts \<le> 2 ^ 64"
    by simp
  from Cons.IH [OF inv' this] show ?case by (simp add: add.assoc)
qed

lemma run_callers_append: "run_callers g (s1 @ s2) = run_callers (run_callers g s1) s2"
  by (induction s1 arbitrary: g) simp_all

lemma identifiers_issued_append:
  "identifiers_issued g (s1 @ s2) =
     identifiers_issued g s1 + identifiers_issued (run_callers g s1) s2"
  by (induction s1 arbitrary: g) simp_all

lemma counter_step:
  "gen_counter (caller_step g t) = gen_counter g + (if gen_pc g t = HoldsLock then 1 else 0)"
  by (simp add: caller_step_def split: pc.splits option.splits)

lemma counter_run:
  "gen_counter (run_callers g sched) = gen_counter g + of_nat (identifiers_issued g sched)"
  by (induction sched arbitrary: g) (simp_all add: counter_step)

lemma unat_add_of_nat:
  fixes c :: "64 word"
  assumes "unat c + j < 2 ^ 64"
  shows "unat (c + of_nat j) = unat c + j"
proof -
  from assms have "j < 2 ^ 64" by simp
  then have j: "unat (of_nat j :: 64 word) = j" by (simp add: unat_of_nat)
  with assms have "unat c + unat (of_nat j :: 64 word) < 2 ^ LENGTH(64)" by simp
  then have "unat (c + of_nat j) = unat c + unat (of_nat j :: 64 word)"
    by (simp only: unat_add_lem)
  with j show ?thesis by simp
qed

lemma no_wrap_less:
  fixes c :: "64 word"
  assumes "unat c + 1 < 2 ^ 64"
  shows "c < c + 1"
  using unat_add_of_nat [of c 1] assms by (simp add: word_less_nat_alt)

text \<open>A caller that returns gets a value above the counter it found when it started.\<close>

lemma returned_above:
  assumes "unat (gen_counter g) + identifiers_issued g sched < 2 ^ 64"
    and "gen_pc (run_callers g sched) t = Returned r"
  shows "case gen_pc g t of
           NotStarted \<Rightarrow> gen_counter g < r
         | HoldsLock \<Rightarrow> gen_counter g < r
         | Incremented \<Rightarrow> gen_counter g \<le> r
         | ReadDone r0 \<Rightarrow> r = r0
         | Returned r0 \<Rightarrow> r = r0"
  using assms
proof (induction sched arbitrary: g)
  case Nil
  then show ?case by simp
next
  case (Cons u us)
  let ?g = "caller_step g u"
  have mono: "gen_counter g \<le> gen_counter ?g"
  proof (cases "gen_pc g u = HoldsLock")
    case True
    with Cons.prems(1) have "unat (gen_counter g) + 1 < 2 ^ 64" by simp
    from no_wrap_less [OF this] True show ?thesis by (simp add: counter_step)
  next
    case False
    then show ?thesis by (simp add: counter_step)
  qed
  have bound: "unat (gen_counter ?g) + identifiers_issued ?g us < 2 ^ 64"
  proof (cases "gen_pc g u = HoldsLock")
    case True
    with Cons.prems(1) have small: "unat (gen_counter g) + 1 < 2 ^ 64" by simp
    from unat_add_of_nat [of "gen_counter g" 1] small
    have "unat (gen_counter g + 1) = unat (gen_counter g) + 1" by simp
    with True Cons.prems(1) show ?thesis by (simp add: counter_step)
  next
    case False
    with Cons.prems(1) show ?thesis by (simp add: counter_step)
  qed
  from Cons.prems have "gen_pc (run_callers ?g us) t = Returned r" by simp
  from Cons.IH [OF bound this]
  have ih: "case gen_pc ?g t of
           NotStarted \<Rightarrow> gen_counter ?g < r
         | HoldsLock \<Rightarrow> gen_counter ?g < r
         | Incremented \<Rightarrow> gen_counter ?g \<le> r
         | ReadDone r0 \<Rightarrow> r = r0
         | Returned r0 \<Rightarrow> r = r0" .
  show ?case
  proof (cases "u = t")
    case False
    then have same: "gen_pc ?g t = gen_pc g t"
      by (simp add: caller_step_def split: pc.splits option.splits)
    from ih mono show ?thesis unfolding same by (cases "gen_pc g t") auto
  next
    case True
    show ?thesis
    proof (cases "gen_pc g t")
      case NotStarted
      with True have "gen_pc ?g t = NotStarted \<or> gen_pc ?g t = HoldsLock"
        by (simp add: caller_step_def split: option.splits)
      moreover from NotStarted True have "gen_counter ?g = gen_counter g"
        by (simp add: counter_step)
      ultimately show ?thesis using ih NotStarted by auto
    next
      case HoldsLock
      with True have pc': "gen_pc ?g t = Incremented" and c': "gen_counter ?g = gen_counter g + 1"
        by (simp_all add: caller_step_def)
      from HoldsLock True Cons.prems(1) have "unat (gen_counter g) + 1 < 2 ^ 64" by simp
      from no_wrap_less [OF this] ih pc' c' HoldsLock show ?thesis by simp
    next
      case Incremented
      with True have "gen_pc ?g t = ReadDone (gen_counter g)"
        by (simp add: caller_step_def)
      with ih Incremented show ?thesis by simp
    next
      case (ReadDone r0)
      with True have "gen_pc ?g t = Returned r0" by (simp add: caller_step_def)
      with ih ReadDone show ?thesis by simp
    next
      case (Returned r0)
      with True have "gen_pc ?g t = Returned r0" by (simp add: caller_step_def)
      with ih Returned show ?thesis by simp
    qed
  qed
qed

lemma concurrent_returns_above_start:
  assumes "unat c + identifiers_issued (init_generator c) sched < 2 ^ 64"
    and "gen_pc (run_callers (init_generator c) sched) t = Returned r"
  shows "c < r"
proof -
  have c: "gen_counter (init_generator c) = c" and p: "gen_pc (init_generator c) t = NotStarted"
    by (simp_all add: init_generator_def)
  from assms(1) have "unat (gen_counter (init_generator c))
      + identifiers_issued (init_generator c) sched < 2 ^ 64" by (simp only: c)
  from returned_above [OF this assms(2)] show ?thesis by (simp add: c p)
qed

lemma concurrent_returns_distinct:
  assumes "identifiers_issued (init_generator c) sched \<le> 2 ^ 64"
    and "gen_pc (run_callers (init_generator c) sched) t = Returned r"
    and "gen_pc (run_callers (init_generator c) sched) u = Returned r"
  shows "t = u"
proof -
  from assms(1) have "0 + identifiers_issued (init_generator c) sched \<le> 2 ^ 64" by simp
  from gen_inv_run [OF gen_inv_init this]
  have "issued_inv c (0 + identifiers_issued (init_generator c) sched)
          (gen_counter (run_callers (init_generator c) sched))
          (gen_pc (run_callers (init_generator c) sched))"
    by (simp only: gen_inv_def)
  with assms(2,3) show ?thesis unfolding issued_inv_def by blast
qed

lemma later_call_returns_more:
  assumes "unat c + identifiers_issued (init_generator c) (s1 @ s2) < 2 ^ 64"
    and "gen_pc (run_callers (init_generator c) s1) u = Returned r'"
    and "gen_pc (run_callers (init_generator c) s1) t = NotStarted"
    and "gen_pc (run_callers (init_generator c) (s1 @ s2)) t = Returned r"
  shows "r' < r"
proof -
  let ?g = "run_callers (init_generator c) s1"
  let ?k = "identifiers_issued (init_generator c) s1"
  from assms(1) have all: "unat c + (?k + identifiers_issued ?g s2) < 2 ^ 64"
    by (simp only: identifiers_issued_append)
  then have k: "unat c + ?k < 2 ^ 64" by simp
  then have "0 + ?k \<le> 2 ^ 64" by simp
  from gen_inv_run [OF gen_inv_init this]
  have "issued_inv c ?k (gen_counter ?g) (gen_pc ?g)" by (simp add: gen_inv_def)
  then have "\<And>x r. gen_pc ?g x = Returned r \<Longrightarrow> \<exists>j. 0 < j \<and> j \<le> ?k \<and> r = c + of_nat j"
    unfolding issued_inv_def by blast
  from this [OF assms(2)] obtain j where j: "0 < j" "j \<le> ?k" "r' = c + of_nat j"
    by blast
  have cnt: "gen_counter ?g = c + of_nat ?k"
    using counter_run [of "init_generator c" s1] by (simp add: init_generator_def)
  from j(2) k have "unat c + j < 2 ^ 64" by simp
  from unat_add_of_nat [OF this] unat_add_of_nat [OF k] j(2,3) cnt
  have le: "r' \<le> gen_counter ?g" by (simp add: word_le_nat_alt)
  from unat_add_of_nat [OF k] cnt all
  have "unat (gen_counter ?g) + identifiers_issued ?g s2 < 2 ^ 64" by simp
  from returned_above [OF this, of t r] assms(3,4) have "gen_counter ?g < r"
    by (simp add: run_callers_append)
  with le show ?thesis by simp
qed

text \<open>Successive calls return different values as long as there are at most \<open>2 ^ 64\<close> of them.\<close>

lemma GenerateDrapeIDs_distinct:
  assumes "n \<le> 2 ^ 64"
  shows "distinct (fst (GenerateDrapeIDs n s))"
proof -
  have "fst (GenerateDrapeIDs n s) ! i \<noteq> fst (GenerateDrapeIDs n s) ! j"
    if "i < j" and "j < n" for i j
  proof -
    from that have i: "i < n" by simp
    from that assms have "0 < Suc i" "Suc i < Suc j" "Suc j \<le> 2 ^ 64" by simp_all
    then have "(of_nat (Suc i) :: 64 word) \<noteq> of_nat (Suc j)" by (rule of_nat_neq_below)
    then show ?thesis
      by (simp add: GenerateDrapeIDs_nth [OF i] GenerateDrapeIDs_nth [OF that(2)])
  qed
  then have "fst (GenerateDrapeIDs n s) ! i \<noteq> fst (GenerateDrapeIDs n s) ! j"
    if "i < n" and "j < n" and "i \<noteq> j" for i j
    using that by (cases "i < j") (auto simp: not_less le_less dest: not_sym)
  then show ?thesis by (simp add: distinct_conv_nth GenerateDrapeIDs_length)
qed

text \<open>
  C2, as stated, fails: the counter is a 64-bit unsigned integer and the increment wraps.
  Starting from the counter 0, the first call returns 1 and the \<open>2 ^ 64\<close>-th call
  returns 0, which is not greater than 1; the call after it returns 1 a second time.
\<close>

theorem GenerateDrapeID_wraps_around:
  "fst (GenerateDrapeIDs (2 ^ 64 + 1) engine0) ! 0 = 1
   \<and> fst (GenerateDrapeIDs (2 ^ 64 + 1) engine0) ! (2 ^ 64 - 1) = 0
   \<and> fst (GenerateDrapeIDs (2 ^ 64 + 1) engine0) ! (2 ^ 64) = 1"
proof -
  have c0: "m_drapeIdGenerator engine0 = 0" by (simp add: engine0_def)
  have "(0 :: nat) < 2 ^ 64 + 1" by simp
  from GenerateDrapeIDs_nth [OF this, of engine0]
  have first: "fst (GenerateDrapeIDs (2 ^ 64 + 1) engine0) ! 0 = 1"
    by (simp add: c0)
  have "(2 ^ 64 - 1 :: nat) < 2 ^ 64 + 1" by simp
  from GenerateDrapeIDs_nth [OF this, of engine0]
  have "fst (GenerateDrapeIDs (2 ^ 64 + 1) engine0) ! (2 ^ 64 - 1)
          = (1 :: 64 word) + of_nat (2 ^ 64 - 1)"
    by (simp add: c0)
  also have "\<dots> = 0" by simp
  finally have wrapped: "fst (GenerateDrapeIDs (2 ^ 64 + 1) engine0) ! (2 ^ 64 - 1) = 0" .
  have "(2 ^ 64 :: nat) < 2 ^ 64 + 1" by simp
  from GenerateDrapeIDs_nth [OF this, of engine0]
  have "fst (GenerateDrapeIDs (2 ^ 64 + 1) engine0) ! (2 ^ 64)
          = (1 :: 64 word) + of_nat (2 ^ 64)"
    by (simp add: c0)
  also have "\<dots> = 1" by simp
  finally have again: "fst (GenerateDrapeIDs (2 ^ 64 + 1) engine0) ! (2 ^ 64) = 1" .
  from first wrapped again show ?thesis by simp
qed

text \<open>
  A caller that runs its four steps with no other caller in between does what the
  function does as a whole: the counter goes up by one and that value is returned.
\<close>

lemma uninterrupted_call:
  assumes "gen_mutex g = None" and "gen_pc g t = NotStarted"
  shows "run_callers g [t, t, t, t] =
           g\<lparr>gen_counter := gen_counter g + 1,
             gen_pc := (gen_pc g)(t := Returned (gen_counter g + 1))\<rparr>"
  using assms by (simp add: caller_step_def)

text \<open>
  C2, amended. A call of \<open>GenerateDrapeID\<close> takes the mutex, adds one to the counter
  modulo \<open>2 ^ 64\<close>, returns the new counter and gives the mutex back; it does nothing
  else. Under every schedule of concurrent callers at most one caller is between taking
  the mutex and giving it back, and the counter is the starting counter plus the number
  of identifiers issued, modulo \<open>2 ^ 64\<close>. What the wrap-around limits:
  \<^item> as long as the identifiers issued do not take the counter past \<open>2 ^ 64 - 1\<close>,
    successive calls return strictly increasing values, every value returned (also
    under concurrent callers) is greater than the counter at the start, and a call that
    starts after another call has returned gets a strictly greater value;
  \<^item> as long as at most \<open>2 ^ 64\<close> identifiers are issued, no two calls (successive
    or concurrent) return the same value.
\<close>

theorem GenerateDrapeID_increasing_until_wrap:
  "fst (GenerateDrapeID s) = m_drapeIdGenerator s + 1
   \<and> snd (GenerateDrapeID s) =
       s\<lparr>m_drapeIdGenerator := m_drapeIdGenerator s + 1,
         calls := calls s @ [DrapeIdGeneratorMutexLock, DrapeIdGeneratorMutexUnlock]\<rparr>
   \<and> (unat (m_drapeIdGenerator s) + n < 2 ^ 64 \<longrightarrow>
        sorted_wrt (<) (fst (GenerateDrapeIDs n s))
        \<and> (\<forall>i \<in> set (fst (GenerateDrapeIDs n s)). m_drapeIdGenerator s < i))
   \<and> (n \<le> 2 ^ 64 \<longrightarrow> distinct (fst (GenerateDrapeIDs n s)))
   \<and> (\<forall>t u. in_critical_section (gen_pc (run_callers (init_generator c) sched) t)
              \<and> in_critical_section (gen_pc (run_callers (init_generator c) sched) u)
              \<longrightarrow> t = u)
   \<and> gen_counter (run_callers (init_generator c) sched)
       = c + of_nat (identifiers_issued (init_generator c) sched)
   \<and> (unat c + identifiers_issued (init_generator c) sched < 2 ^ 64 \<longrightarrow>
        (\<forall>t r. gen_pc (run_callers (init_generator c) sched) t = Returned r \<longrightarrow> c < r))
   \<and> (identifiers_issued (init_generator c) sched \<le> 2 ^ 64 \<longrightarrow>
        (\<forall>t u r. gen_pc (run_callers (init_generator c) sched) t = Returned r
                  \<and> gen_pc (run_callers (init_generator c) sched) u = Returned r
                  \<longrightarrow> t = u))
   \<and> (unat c + identifiers_issued (init_generator c) (sched @ sched') < 2 ^ 64
        \<and> gen_pc (run_callers (init_generator c) sched) u = Returned r'
        \<and> gen_pc (run_callers (init_generator c) sched) t = NotStarted
        \<and> gen_pc (run_callers (init_generator c) (sched @ sched')) t = Returned r
        \<longrightarrow> r' < r)"
proof -
  have serial: "sorted_wrt (<) (fst (GenerateDrapeIDs n s))
        \<and> (\<forall>i \<in> set (fst (GenerateDrapeIDs n s)). m_drapeIdGenerator s < i)"
    if "unat (m_drapeIdGenerator s) + n < 2 ^ 64"
    using that by (rule GenerateDrapeIDs_increasing)
  have serial_distinct: "distinct (fst (GenerateDrapeIDs n s))" if "n \<le> 2 ^ 64"
    using that by (rule GenerateDrapeIDs_distinct)
  have excl: "\<forall>t u. in_critical_section (gen_pc (run_callers (init_generator c) sched) t)
              \<and> in_critical_section (gen_pc (run_callers (init_generator c) sched) u)
              \<longrightarrow> t = u"
    using one_caller_in_critical_section [of c sched] by blast
  have count: "gen_counter (run_callers (init_generator c) sched)
       = c + of_nat (identifiers_issued (init_generator c) sched)"
    using counter_run [of "init_generator c" sched] by (simp add: init_generator_def)
  have above: "\<forall>t r. gen_pc (run_callers (init_generator c) sched) t = Returned r \<longrightarrow> c < r"
    if "unat c + identifiers_issued (init_generator c) sched < 2 ^ 64"
    using concurrent_returns_above_start [OF that] by blast
  have different: "\<forall>t u r. gen_pc (run_callers (init_generator c) sched) t = Returned r
                  \<and> gen_pc (run_callers (init_generator c) sched) u = Returned r
                  \<longrightarrow> t = u"
    if "identifiers_issued (init_generator c) sched \<le> 2 ^ 64"
    using concurrent_returns_distinct [OF that] by blast
  have later: "r' < r"
    if "unat c + identifiers_issued (init_generator c) (sched @ sched') < 2 ^ 64"
      and "gen_pc (run_callers (init_generator c) sched) u = Returned r'"
      and "gen_pc (run_callers (init_generator c) sched) t = NotStarted"
      and "gen_pc (run_callers (init_generator c) (sched @ sched')) t = Returned r"
    using that by (rule later_call_returns_more)
  from serial serial_distinct excl count above different later show ?thesis
    by (simp only: GenerateDrapeID_fst GenerateDrapeID_snd) blast
qed

theorem GenerateDrapeID_increasing_witness:
  "unat (m_drapeIdGenerator engine0) + 3 < 2 ^ 64 \<and> (3 :: nat) \<le> 2 ^ 64
   \<and> sorted_wrt (<) (fst (GenerateDrapeIDs 3 engine0))
   \<and> distinct (fst (GenerateDrapeIDs 3 engine0))
   \<and> unat (0 :: 64 word)
        + identifiers_issued (init_generator 0) ([0, 0, 1, 0, 0] @ [1, 1, 1, 1]) < 2 ^ 64
   \<and> gen_pc (run_callers (init_generator 0) [0, 0, 1, 0, 0]) 0 = Returned 1
   \<and> gen_pc (run_callers (init_generator 0) [0, 0, 1, 0, 0]) 1 = NotStarted
   \<and> gen_pc (run_callers (init_generator 0) ([0, 0, 1, 0, 0] @ [1, 1, 1, 1])) 1 = Returned 2
   \<and> (1 :: 64 word) < 2
   \<and> in_critical_section (gen_pc (run_callers (init_generator 0) [0, 0, 1]) 0)
   \<and> \<not> in_critical_section (gen_pc (run_callers (init_generator 0) [0, 0, 1]) 1)
   \<and> unat (18446744073709551614 :: 64 word)
        + identifiers_issued (init_generator 18446744073709551614) [0, 0, 0, 0] < 2 ^ 64
   \<and> identifiers_issued (init_generator 18446744073709551614) [0, 0, 0, 0] \<le> 2 ^ 64
   \<and> gen_pc (run_callers (init_generator 18446744073709551614) [0, 0, 0, 0]) 0
       = Returned 18446744073709551615
   \<and> gen_counter (run_callers (init_generator 18446744073709551614) [0, 0, 0, 0])
       = 18446744073709551614
         + of_nat (identifiers_issued (init_generator 18446744073709551614) [0, 0, 0, 0])
   \<and> (18446744073709551614 :: 64 word) < 18446744073709551615"
proof -
  note first = GenerateDrapeID_increasing_until_wrap
    [of engine0 3 0 "[0, 0, 1, 0, 0]" "[1, 1, 1, 1]" 0 1 1 2]
  note second = GenerateDrapeID_increasing_until_wrap
    [of engine0 3 0 "[0, 0, 1]" "[]" 0 1 1 2]
  note third = GenerateDrapeID_increasing_until_wrap
    [of engine0 3 18446744073709551614 "[0, 0, 0, 0]" "[]" 0 1 1 2]
  have s1: "unat (m_drapeIdGenerator engine0) + 3 < 2 ^ 64" and s2: "(3 :: nat) \<le> 2 ^ 64"
    by (simp_all add: engine0_def)
  from first s1 have sorted: "sorted_wrt (<) (fst (GenerateDrapeIDs 3 engine0))" by blast
  from first s2 have different: "distinct (fst (GenerateDrapeIDs 3 engine0))" by blast
  have k: "unat (0 :: 64 word)
        + identifiers_issued (init_generator 0) ([0, 0, 1, 0, 0] @ [1, 1, 1, 1]) < 2 ^ 64"
    by (simp add: init_generator_def caller_step_def)
  have m0: "gen_pc (run_callers (init_generator 0) [0, 0, 1, 0, 0]) 0 = Returned 1"
    by (simp add: init_generator_def caller_step_def)
  have m1: "gen_pc (run_callers (init_generator 0) [0, 0, 1, 0, 0]) 1 = NotStarted"
    by (simp add: init_generator_def caller_step_def)
  have r1: "gen_pc (run_callers (init_generator 0) ([0, 0, 1, 0, 0] @ [1, 1, 1, 1])) 1 = Returned 2"
    by (simp add: init_generator_def caller_step_def)
  from first k m0 m1 r1 have later: "(1 :: 64 word) < 2" by blast
  have cr0: "in_critical_section (gen_pc (run_callers (init_generator 0) [0, 0, 1]) 0)"
    by (simp add: init_generator_def caller_step_def)
  from second cr0 have cr1: "\<not> in_critical_section (gen_pc (run_callers (init_generator 0) [0, 0, 1]) 1)"
    by (metis zero_neq_one)
  have e1: "unat (18446744073709551614 :: 64 word)
        + identifiers_issued (init_generator 18446744073709551614) [0, 0, 0, 0] < 2 ^ 64"
    and e2: "identifiers_issued (init_generator 18446744073709551614) [0, 0, 0, 0] \<le> 2 ^ 64"
    by (simp_all add: init_generator_def caller_step_def)
  have e3: "gen_pc (run_callers (init_generator 18446744073709551614) [0, 0, 0, 0]) 0
       = Returned 18446744073709551615"
    by (simp add: init_generator_def caller_step_def)
  from third have e4: "gen_counter (run_callers (init_generator 18446744073709551614) [0, 0, 0, 0])
       = 18446744073709551614
         + of_nat (identifiers_issued (init_generator 18446744073709551614) [0, 0, 0, 0])"
    by blast
  from third e1 e3 have e5: "(18446744073709551614 :: 64 word) < 18446744073709551615"
    by blast
  from s1 s2 sorted different k m0 m1 r1 later cr0 cr1 e1 e2 e3 e4 e5 show ?thesis
    by (intro conjI)
qed

subsection \<open>Resizing\<close>

text \<open>
  The conversion of an \<open>int\<close> to \<open>uint32_t\<close> gives the number modulo
  \<open>2 ^ 32\<close>, which for a number that is not negative is the number itself.
\<close>

lemma uint_eq_sint_nonneg:
  fixes w :: "32 word"
  assumes "0 \<le> sint w"
  shows "uint w = sint w"
proof -
  have "sint w < 2 ^ (LENGTH(32) - 1)" by (rule sint_lt)
  then have "sint w < 2 ^ 32" by simp
  with assms have "take_bit 32 (sint w) = sint w"
    by (simp add: take_bit_int_eq_self)
  then show ?thesis by (simp add: uint_sint)
qed

lemma uint_static_cast_uint32: "uint (static_cast_uint32 x) = sint x mod 2 ^ 32"
  using uint_word_of_int [of "sint x", where 'a = 32] by (simp add: static_cast_uint32_def)

lemma static_cast_uint32_eq_iff:
  "(x = static_cast_uint32 w) = (uint x = sint w mod 2 ^ 32)"
  using uint_static_cast_uint32 [of w] by (auto simp: word_uint_eq_iff)

lemma static_cast_uint32_eq_iff_pos:
  assumes "0 < sint w"
  shows "(x = static_cast_uint32 w) = (uint x = sint w)"
proof -
  from assms have "0 \<le> sint w" by simp
  then have "uint w = sint w" by (rule uint_eq_sint_nonneg)
  then have "sint w mod 2 ^ 32 = sint w" using uint_static_cast_uint32 [of w]
    by (simp add: static_cast_uint32_def)
  then show ?thesis by (simp add: static_cast_uint32_eq_iff)
qed

lemma ResizeImpl_state:
  "ResizeImpl s w h =
     s\<lparr>m_viewport := (m_viewport s)\<lparr>m_zero := (0, 0),
                         m_size := (word_of_int (sint w), word_of_int (sint h))\<rparr>,
       calls := calls s @ [DrapeGuiSetSurfaceSize w h, FrontendAddUserEvent (ResizeEvent w h)]\<rparr>"
  by (simp add: facade_defs static_cast_uint32_def Let_def)

lemma ResizeImpl_size:
  "uint (GetWidth (m_viewport (ResizeImpl s w h))) = sint w mod 2 ^ 32"
  "uint (GetHeight (m_viewport (ResizeImpl s w h))) = sint h mod 2 ^ 32"
  using uint_static_cast_uint32 [of w] uint_static_cast_uint32 [of h]
  by (simp_all add: facade_defs Let_def)

text \<open>
  C3, as stated, fails outside positive sizes. In a debug build \<open>Resize(0, 600)\<close> on a
  viewport 800 wide stops at the assertion: the sizes differ and no update is applied.
  In a release build \<open>Resize(-1, 600)\<close> on a viewport 4294967295 wide and 600 high
  changes nothing although \<open>-1\<close> is not the viewport's width: the comparison is made
  after the conversion to \<open>uint32_t\<close>.
\<close>

theorem Resize_outside_precondition:
  "Resize True engine0 0 600 = Inl AssertGreaterFailed
   \<and> uint (GetWidth (m_viewport engine0)) \<noteq> sint (0 :: 32 word)
   \<and> Resize False (engine0\<lparr>m_viewport := \<lparr>m_zero = (0, 0), m_size = (4294967295, 600)\<rparr>\<rparr>)
        (- 1) 600
      = Inr (engine0\<lparr>m_viewport := \<lparr>m_zero = (0, 0), m_size = (4294967295, 600)\<rparr>\<rparr>)
   \<and> uint (GetWidth (m_viewport
         (engine0\<lparr>m_viewport := \<lparr>m_zero = (0, 0), m_size = (4294967295, 600)\<rparr>\<rparr>)))
       \<noteq> sint (- 1 :: 32 word)"
  by (simp add: Resize_def engine0_def GetWidth_def GetHeight_def static_cast_uint32_def)

text \<open>
  C3, amended. For a call \<open>Resize(w, h)\<close> with positive \<open>w\<close> and \<open>h\<close> (what
  the function asserts), in either build: if \<open>w\<close> and \<open>h\<close> are the width and
  height of the current viewport, the engine state is unchanged and no call is made (no
  message, no user event); otherwise exactly one update is applied, that of
  \<open>ResizeImpl\<close>: the viewport becomes \<open>(0, 0, w, h)\<close>, the GUI is told the new
  surface size, and exactly one resize event goes to the frontend renderer. When
  \<open>w\<close> or \<open>h\<close> is not positive, a debug build stops at the assertion, and a
  release build does the same comparison and update with \<open>w\<close> and \<open>h\<close> taken
  modulo \<open>2 ^ 32\<close>.
\<close>

theorem Resize_noop_or_one_update:
  "(0 < sint w \<and> 0 < sint h \<longrightarrow>
      Resize debug s w h =
        (if uint (GetWidth (m_viewport s)) = sint w \<and> uint (GetHeight (m_viewport s)) = sint h
         then Inr s else Inr (ResizeImpl s w h))
      \<and> uint (GetWidth (m_viewport (ResizeImpl s w h))) = sint w
      \<and> uint (GetHeight (m_viewport (ResizeImpl s w h))) = sint h)
   \<and> ResizeImpl s w h =
       s\<lparr>m_viewport := (m_viewport s)\<lparr>m_zero := (0, 0),
                           m_size := (word_of_int (sint w), word_of_int (sint h))\<rparr>,
         calls := calls s @ [DrapeGuiSetSurfaceSize w h,
                             FrontendAddUserEvent (ResizeEvent w h)]\<rparr>
   \<and> (debug \<and> (sint w \<le> 0 \<or> sint h \<le> 0) \<longrightarrow> Resize debug s w h = Inl AssertGreaterFailed)
   \<and> (\<not> debug \<longrightarrow>
        Resize debug s w h =
          (if uint (GetWidth (m_viewport s)) = sint w mod 2 ^ 32
              \<and> uint (GetHeight (m_viewport s)) = sint h mod 2 ^ 32
           then Inr s else Inr (ResizeImpl s w h)))"
proof -
  have pos: "Resize debug s w h =
        (if uint (GetWidth (m_viewport s)) = sint w \<and> uint (GetHeight (m_viewport s)) = sint h
         then Inr s else Inr (ResizeImpl s w h))
      \<and> uint (GetWidth (m_viewport (ResizeImpl s w h))) = sint w
      \<and> uint (GetHeight (m_viewport (ResizeImpl s w h))) = sint h"
    if w: "0 < sint w" and h: "0 < sint h"
  proof -
    have "sint w mod 2 ^ 32 = sint w"
      using static_cast_uint32_eq_iff_pos [OF w, of "static_cast_uint32 w"]
      by (simp add: uint_static_cast_uint32)
    moreover have "sint h mod 2 ^ 32 = sint h"
      using static_cast_uint32_eq_iff_pos [OF h, of "static_cast_uint32 h"]
      by (simp add: uint_static_cast_uint32)
    ultimately show ?thesis
      using w h
      by (auto simp: Resize_def ResizeImpl_size static_cast_uint32_eq_iff_pos)
  qed
  have dbg: "Resize debug s w h = Inl AssertGreaterFailed"
    if "debug" and "sint w \<le> 0 \<or> sint h \<le> 0"
    using that by (auto simp: Resize_def)
  have rel: "Resize debug s w h =
          (if uint (GetWidth (m_viewport s)) = sint w mod 2 ^ 32
              \<and> uint (GetHeight (m_viewport s)) = sint h mod 2 ^ 32
           then Inr s else Inr (ResizeImpl s w h))"
    if "\<not> debug"
    using that by (auto simp: Resize_def static_cast_uint32_eq_iff)
  from pos dbg rel ResizeImpl_state [of s w h] show ?thesis by blast
qed

theorem Resize_witness:
  "0 < sint (800 :: 32 word) \<and> 0 < sint (600 :: 32 word) \<and> 0 < sint (1024 :: 32 word)
   \<and> Resize True engine0 800 600 = Inr engine0
   \<and> Resize True engine0 1024 600 =
       Inr (engine0\<lparr>m_viewport := \<lparr>m_zero = (0, 0), m_size = (1024, 600)\<rparr>,
                   calls := [DrapeGuiSetSurfaceSize 1024 600,
                             FrontendAddUserEvent (ResizeEvent 1024 600)]\<rparr>)
   \<and> sint (0 :: 32 word) \<le> 0
   \<and> Resize True engine0 0 600 = Inl AssertGreaterFailed
   \<and> Resize False engine0 0 600 =
       Inr (engine0\<lparr>m_viewport := \<lparr>m_zero = (0, 0), m_size = (0, 600)\<rparr>,
                   calls := [DrapeGuiSetSurfaceSize 0 600,
                             FrontendAddUserEvent (ResizeEvent 0 600)]\<rparr>)"
proof -
  have a: "0 < sint (800 :: 32 word)" by simp
  have b: "0 < sint (600 :: 32 word)" by simp
  have c: "0 < sint (1024 :: 32 word)" by simp
  have d: "sint (0 :: 32 word) \<le> 0" by simp
  have v: "uint (GetWidth (m_viewport engine0)) = 800" "uint (GetHeight (m_viewport engine0)) = 600"
    by (simp_all add: engine0_def GetWidth_def GetHeight_def)
  have m: "m_viewport engine0 = \<lparr>m_zero = (0, 0), m_size = (800, 600)\<rparr>" "calls engine0 = []"
    by (simp_all add: engine0_def)
  from Resize_noop_or_one_update [of 800 600 True engine0] Resize_noop_or_one_update [of 1024 600 True engine0]
    Resize_noop_or_one_update [of 0 600 True engine0] Resize_noop_or_one_update [of 0 600 False engine0] a b c d v m
  show ?thesis by simp
qed

text \<open>
  C10. \<open>Update(w, h)\<close> has no comparison with the current viewport: for every
  \<open>w\<close> and \<open>h\<close>, also the current width and height, it sets the viewport to
  \<open>(0, 0, w, h)\<close> (its width and height read \<open>w\<close> and \<open>h\<close> modulo
  \<open>2 ^ 32\<close>, so \<open>w\<close> and \<open>h\<close> themselves when they are not negative) and
  sends the resize event. Before that it posts, in this order, the show-marker message
  (only when the engine is in choose-position mode), the GUI recache, the map-shape
  recache, and the recovery of GL resources at high priority to the render thread.
\<close>

theorem Update_always_resizes:
  "Update s w h =
     s\<lparr>m_viewport := (m_viewport s)\<lparr>m_zero := (0, 0),
                         m_size := (word_of_int (sint w), word_of_int (sint h))\<rparr>,
       calls := calls s
         @ (if m_choosePositionMode s
            then [PostMessage ResourceUploadThread ShowChoosePositionMarkMessage High]
            else [])
         @ [PostMessage ResourceUploadThread (GuiRecacheMessage (m_widgetsInfo s) False) High,
            PostMessage ResourceUploadThread MapShapesRecacheMessage Normal,
            PostMessage RenderThread RecoverGLResourcesMessage High,
            DrapeGuiSetSurfaceSize w h,
            FrontendAddUserEvent (ResizeEvent w h)]\<rparr>
   \<and> uint (GetWidth (m_viewport (Update s w h))) = sint w mod 2 ^ 32
   \<and> uint (GetHeight (m_viewport (Update s w h))) = sint h mod 2 ^ 32
   \<and> (0 \<le> sint w \<longrightarrow> uint (GetWidth (m_viewport (Update s w h))) = sint w)
   \<and> (0 \<le> sint h \<longrightarrow> uint (GetHeight (m_viewport (Update s w h))) = sint h)"
proof -
  have state: "Update s w h =
     s\<lparr>m_viewport := (m_viewport s)\<lparr>m_zero := (0, 0),
                         m_size := (word_of_int (sint w), word_of_int (sint h))\<rparr>,
       calls := calls s
         @ (if m_choosePositionMode s
            then [PostMessage ResourceUploadThread ShowChoosePositionMarkMessage High]
            else [])
         @ [PostMessage ResourceUploadThread (GuiRecacheMessage (m_widgetsInfo s) False) High,
            PostMessage ResourceUploadThread MapShapesRecacheMessage Normal,
            PostMessage RenderThread RecoverGLResourcesMessage High,
            DrapeGuiSetSurfaceSize w h,
            FrontendAddUserEvent (ResizeEvent w h)]\<rparr>"
    by (simp add: Update_def facade_defs static_cast_uint32_def Let_def)
  have width: "uint (GetWidth (m_viewport (Update s w h))) = sint w mod 2 ^ 32"
    using uint_static_cast_uint32 [of w] by (simp add: Update_def facade_defs Let_def)
  have height: "uint (GetHeight (m_viewport (Update s w h))) = sint h mod 2 ^ 32"
    using uint_static_cast_uint32 [of h] by (simp add: Update_def facade_defs Let_def)
  have w: "uint (GetWidth (m_viewport (Update s w h))) = sint w" if "0 \<le> sint w"
    using uint_eq_sint_nonneg [OF that] by (simp add: Update_def facade_defs Let_def static_cast_uint32_def)
  have h: "uint (GetHeight (m_viewport (Update s w h))) = sint h" if "0 \<le> sint h"
    using uint_eq_sint_nonneg [OF that] by (simp add: Update_def facade_defs Let_def static_cast_uint32_def)
  from state width height w h show ?thesis by blast
qed

theorem Update_witness:
  "GetWidth (m_viewport engine0) = 800 \<and> GetHeight (m_viewport engine0) = 600
   \<and> Update engine0 800 600 =
       engine0\<lparr>m_viewport := \<lparr>m_zero = (0, 0), m_size = (800, 600)\<rparr>,
         calls :=
           [PostMessage ResourceUploadThread (GuiRecacheMessage (WidgetsInitInfo 0) False) High,
            PostMessage ResourceUploadThread MapShapesRecacheMessage Normal,
            PostMessage RenderThread RecoverGLResourcesMessage High,
            DrapeGuiSetSurfaceSize 800 600,
            FrontendAddUserEvent (ResizeEvent 800 600)]\<rparr>
   \<and> m_viewport (Update engine0 1024 768) = \<lparr>m_zero = (0, 0), m_size = (1024, 768)\<rparr>
   \<and> 0 \<le> sint (1024 :: 32 word) \<and> 0 \<le> sint (768 :: 32 word)
   \<and> uint (GetWidth (m_viewport (Update engine0 1024 768))) = 1024
   \<and> uint (GetHeight (m_viewport (Update engine0 1024 768))) = 768
   \<and> calls (Update (engine0\<lparr>m_choosePositionMode := True\<rparr>) 800 600) =
       [PostMessage ResourceUploadThread ShowChoosePositionMarkMessage High,
        PostMessage ResourceUploadThread (GuiRecacheMessage (WidgetsInitInfo 0) False) High,
        PostMessage ResourceUploadThread MapShapesRecacheMessage Normal,
        PostMessage RenderThread RecoverGLResourcesMessage High,
        DrapeGuiSetSurfaceSize 800 600,
        FrontendAddUserEvent (ResizeEvent 800 600)]"
proof -
  have a: "0 \<le> sint (1024 :: 32 word)" "0 \<le> sint (768 :: 32 word)" by simp_all
  from Update_always_resizes [of engine0 800 600]
    Update_always_resizes [of engine0 1024 768]
    Update_always_resizes [of "engine0\<lparr>m_choosePositionMode := True\<rparr>" 800 600] a
  show ?thesis by (simp add: engine0_def GetWidth_def GetHeight_def)
qed

subsection \<open>Destruction\<close>

text \<open>
  C4, as stated, fails: the GUI singleton is not torn down last. The destructor makes
  seven calls; the sixth destroys the GUI and the seventh, the last, releases the
  texture manager.
\<close>

theorem destructor_gui_before_textures:
  "length (calls (destructor engine0)) = 7
   \<and> calls (destructor engine0) ! 5 = DrapeGuiDestroy
   \<and> calls (destructor engine0) ! 6 = TextureManagerRelease
   \<and> last (calls (destructor engine0)) \<noteq> DrapeGuiDestroy"
  by (simp add: destructor_def call_def Let_def engine0_def)

text \<open>
  C4, amended. The destructor's steps are, in this order: teardown of the frontend
  renderer (the render thread), teardown of the backend renderer (the resource-upload
  thread), release of the thread commutator, release of the two renderer objects,
  destruction of the GUI singleton, and release of the texture manager, which comes
  last and so after both teardowns.
\<close>

theorem destructor_order:
  "calls (destructor s) =
     calls s @ [FrontendTeardown, BackendTeardown, ThreadCommutatorReset,
                FrontendReset, BackendReset, DrapeGuiDestroy, TextureManagerRelease]"
  by (simp add: destructor_def call_def Let_def)

theorem destructor_order_witness:
  "calls (destructor engine0) =
     [FrontendTeardown, BackendTeardown, ThreadCommutatorReset,
      FrontendReset, BackendReset, DrapeGuiDestroy, TextureManagerRelease]"
  using destructor_order [of engine0] by (simp add: engine0_def)

subsection \<open>Choose-position mode and kinetic scrolling\<close>

text \<open>
  C5. In every engine state: entering choose-position mode posts the stop-following
  message, the show-marker upload and then the mode-set message with kinetic scroll
  false, whatever the tracked flag is; leaving the mode posts the forced GUI recache
  and then the mode-set message carrying the tracked flag; neither changes the tracked
  flag; \<open>SetKineticScrollEnabled\<close> while in the mode stores the flag and makes no
  call (outside the mode it also posts the flag). So after entering, setting the flag
  to \<open>enabled\<close> and leaving, the mode-set message of the leave carries
  \<open>enabled\<close>.
\<close>

theorem choose_position_mode_and_kinetic_scroll:
  "calls (EnableChoosePositionMode s True triangles hasPosition position) =
     calls s @ [PostMessage RenderThread (ChangeMyPositionModeMessage StopFollowing) High,
                PostMessage ResourceUploadThread ShowChoosePositionMarkMessage High,
                PostMessage RenderThread
                  (SetAddNewPlaceModeMessage True triangles False hasPosition position) High]
   \<and> calls (EnableChoosePositionMode s False triangles hasPosition position) =
     calls s @ [PostMessage ResourceUploadThread
                  (GuiRecacheMessage (m_widgetsInfo s) True) High,
                PostMessage RenderThread
                  (SetAddNewPlaceModeMessage False triangles (m_kineticScrollEnabled s)
                     hasPosition position) High]
   \<and> m_kineticScrollEnabled (EnableChoosePositionMode s enable triangles hasPosition position)
       = m_kineticScrollEnabled s
   \<and> m_choosePositionMode (EnableChoosePositionMode s enable triangles hasPosition position)
       = enable
   \<and> (m_choosePositionMode s \<longrightarrow>
        SetKineticScrollEnabled s enabled = s\<lparr>m_kineticScrollEnabled := enabled\<rparr>)
   \<and> (\<not> m_choosePositionMode s \<longrightarrow>
        SetKineticScrollEnabled s enabled =
          s\<lparr>m_kineticScrollEnabled := enabled,
            calls := calls s @ [PostMessage RenderThread
                                 (SetKineticScrollEnabledMessage enabled) High]\<rparr>)
   \<and> calls (EnableChoosePositionMode
              (SetKineticScrollEnabled
                 (EnableChoosePositionMode s True triangles hasPosition position) enabled)
              False triangles hasPosition position) =
     calls s @ [PostMessage RenderThread (ChangeMyPositionModeMessage StopFollowing) High,
                PostMessage ResourceUploadThread ShowChoosePositionMarkMessage High,
                PostMessage RenderThread
                  (SetAddNewPlaceModeMessage True triangles False hasPosition position) High,
                PostMessage ResourceUploadThread
                  (GuiRecacheMessage (m_widgetsInfo s) True) High,
                PostMessage RenderThread
                  (SetAddNewPlaceModeMessage False triangles enabled
                     hasPosition position) High]"
  by (simp add: EnableChoosePositionMode_def SetKineticScrollEnabled_def facade_defs Let_def)

theorem choose_position_mode_witness:
  "m_kineticScrollEnabled engine0
   \<and> calls (EnableChoosePositionMode engine0 True [] False (0, 0)) =
       [PostMessage RenderThread (ChangeMyPositionModeMessage StopFollowing) High,
        PostMessage ResourceUploadThread ShowChoosePositionMarkMessage High,
        PostMessage RenderThread (SetAddNewPlaceModeMessage True [] False False (0, 0)) High]
   \<and> m_choosePositionMode (engine0\<lparr>m_choosePositionMode := True\<rparr>)
   \<and> SetKineticScrollEnabled (engine0\<lparr>m_choosePositionMode := True\<rparr>) False =
       engine0\<lparr>m_choosePositionMode := True, m_kineticScrollEnabled := False\<rparr>
   \<and> \<not> m_choosePositionMode engine0
   \<and> calls (SetKineticScrollEnabled engine0 False) =
       [PostMessage RenderThread (SetKineticScrollEnabledMessage False) High]"
  using choose_position_mode_and_kinetic_scroll [of engine0 "[]" False "(0, 0)" True False]
    choose_position_mode_and_kinetic_scroll
      [of "engine0\<lparr>m_choosePositionMode := True\<rparr>" "[]" False "(0, 0)" True False]
  by (simp add: engine0_def)

subsection \<open>The initial position mode\<close>

text \<open>
  C6. The constructor's initial position mode: when no mode was supplied and the
  settings hold none, it is the pending mode. Otherwise take the supplied mode, or the
  stored one when none was supplied: if that is follow-and-rotate and the stored screen
  rectangle is missing or not inside the world rectangle, the mode is follow; in every
  other case it is the supplied or stored mode itself.
\<close>

theorem initialMyPositionMode_cases:
  "(kLocationStateMode settings = None \<longrightarrow>
      initialMyPositionMode inWorld settings (supplied, False) = PendingPosition)
   \<and> (\<forall>mode. (given \<and> supplied = mode)
              \<or> (\<not> given \<and> kLocationStateMode settings = Some mode) \<longrightarrow>
        initialMyPositionMode inWorld settings (supplied, given) =
          (if mode = FollowAndRotate
              \<and> (case ScreenClipRect settings of
                    None \<Rightarrow> True
                  | Some rect \<Rightarrow> \<not> inWorld rect)
           then Follow else mode))"
  by (auto simp: initialMyPositionMode_def split: option.splits)

theorem initialMyPositionMode_witness:
  "initialMyPositionMode (\<lambda>rect. rect = AnyRectD 1)
     \<lparr>kLocationStateMode = None, ScreenClipRect = Some (AnyRectD 1)\<rparr>
     (FollowAndRotate, False) = PendingPosition
   \<and> initialMyPositionMode (\<lambda>rect. rect = AnyRectD 1)
     \<lparr>kLocationStateMode = Some FollowAndRotate, ScreenClipRect = Some (AnyRectD 2)\<rparr>
     (PendingPosition, False) = Follow
   \<and> initialMyPositionMode (\<lambda>rect. rect = AnyRectD 1)
     \<lparr>kLocationStateMode = Some Follow, ScreenClipRect = None\<rparr>
     (FollowAndRotate, True) = Follow
   \<and> initialMyPositionMode (\<lambda>rect. rect = AnyRectD 1)
     \<lparr>kLocationStateMode = None, ScreenClipRect = Some (AnyRectD 1)\<rparr>
     (FollowAndRotate, True) = FollowAndRotate
   \<and> initialMyPositionMode (\<lambda>rect. rect = AnyRectD 1)
     \<lparr>kLocationStateMode = Some (OtherMode 2), ScreenClipRect = None\<rparr>
     (FollowAndRotate, False) = OtherMode 2"
  using
    initialMyPositionMode_cases
      [of "\<lparr>kLocationStateMode = None, ScreenClipRect = Some (AnyRectD 1)\<rparr>"
          "\<lambda>rect. rect = AnyRectD 1" FollowAndRotate False]
    initialMyPositionMode_cases
      [of "\<lparr>kLocationStateMode = Some FollowAndRotate, ScreenClipRect = Some (AnyRectD 2)\<rparr>"
          "\<lambda>rect. rect = AnyRectD 1" PendingPosition False]
    initialMyPositionMode_cases
      [of "\<lparr>kLocationStateMode = Some Follow, ScreenClipRect = None\<rparr>"
          "\<lambda>rect. rect = AnyRectD 1" FollowAndRotate True]
    initialMyPositionMode_cases
      [of "\<lparr>kLocationStateMode = None, ScreenClipRect = Some (AnyRectD 1)\<rparr>"
          "\<lambda>rect. rect = AnyRectD 1" FollowAndRotate True]
    initialMyPositionMode_cases
      [of "\<lparr>kLocationStateMode = Some (OtherMode 2), ScreenClipRect = None\<rparr>"
          "\<lambda>rect. rect = AnyRectD 1" FollowAndRotate False]
  by simp

subsection \<open>Traffic\<close>

lemma assert_no_unknown_iff:
  "assert_no_unknown c = (if Unknown \<in> snd ` set c then Inl AssertNotEqualFailed else Inr ())"
  by (induction c) auto

text \<open>
  C7. \<open>UpdateTraffic\<close>: with an empty colouring it returns the engine state as it
  was, having posted nothing. With a colouring that is not empty, a debug build stops at
  the assertion when some segment has the unknown speed group; in every other case
  exactly one message is posted, the traffic update for this map and colouring, to the
  resource-upload thread at normal priority, and nothing else changes.
\<close>

theorem UpdateTraffic_cases:
  "(GetColoring info = [] \<longrightarrow> UpdateTraffic debug s info = Inr s)
   \<and> (GetColoring info \<noteq> [] \<and> debug \<and> Unknown \<in> snd ` set (GetColoring info) \<longrightarrow>
        UpdateTraffic debug s info = Inl AssertNotEqualFailed)
   \<and> (GetColoring info \<noteq> [] \<and> \<not> (debug \<and> Unknown \<in> snd ` set (GetColoring info)) \<longrightarrow>
        UpdateTraffic debug s info =
          Inr (s\<lparr>calls := calls s @ [PostMessage ResourceUploadThread
                     (UpdateTrafficMessage [(GetMwmId info, GetColoring info)]) Normal]\<rparr>))"
  by (simp add: UpdateTraffic_def assert_no_unknown_iff facade_defs Let_def)

theorem UpdateTraffic_witness:
  "UpdateTraffic True engine0 \<lparr>GetMwmId = MwmId 1, GetColoring = []\<rparr> = Inr engine0
   \<and> UpdateTraffic True engine0
       \<lparr>GetMwmId = MwmId 1,
        GetColoring = [(RoadSegmentId 1, SpeedGroup 0), (RoadSegmentId 2, Unknown)]\<rparr>
       = Inl AssertNotEqualFailed
   \<and> UpdateTraffic False engine0
       \<lparr>GetMwmId = MwmId 1,
        GetColoring = [(RoadSegmentId 1, SpeedGroup 0), (RoadSegmentId 2, Unknown)]\<rparr>
       = Inr (engine0\<lparr>calls := [PostMessage ResourceUploadThread
               (UpdateTrafficMessage
                  [(MwmId 1, [(RoadSegmentId 1, SpeedGroup 0), (RoadSegmentId 2, Unknown)])])
               Normal]\<rparr>)
   \<and> UpdateTraffic True engine0
       \<lparr>GetMwmId = MwmId 1, GetColoring = [(RoadSegmentId 1, SpeedGroup 0)]\<rparr>
       = Inr (engine0\<lparr>calls := [PostMessage ResourceUploadThread
               (UpdateTrafficMessage [(MwmId 1, [(RoadSegmentId 1, SpeedGroup 0)])])
               Normal]\<rparr>)"
  using
    UpdateTraffic_cases [of "\<lparr>GetMwmId = MwmId 1, GetColoring = []\<rparr>" True engine0]
    UpdateTraffic_cases
      [of "\<lparr>GetMwmId = MwmId 1,
            GetColoring = [(RoadSegmentId 1, SpeedGroup 0), (RoadSegmentId 2, Unknown)]\<rparr>"
          True engine0]
    UpdateTraffic_cases
      [of "\<lparr>GetMwmId = MwmId 1,
            GetColoring = [(RoadSegmentId 1, SpeedGroup 0), (RoadSegmentId 2, Unknown)]\<rparr>"
          False engine0]
    UpdateTraffic_cases
      [of "\<lparr>GetMwmId = MwmId 1, GetColoring = [(RoadSegmentId 1, SpeedGroup 0)]\<rparr>"
          True engine0]
  by (simp add: engine0_def)

subsection \<open>Objects with an identifier\<close>

text \<open>
  C8, as stated, fails for custom symbols: \<open>AddCustomSymbols\<close> does not call the
  identifier generator. It leaves the counter as it was and its only call is the post
  of a message that holds the symbols and no identifier.
\<close>

theorem AddCustomSymbols_allocates_no_identifier:
  "m_drapeIdGenerator (AddCustomSymbols engine0 (CustomSymbols 5)) = m_drapeIdGenerator engine0
   \<and> calls (AddCustomSymbols engine0 (CustomSymbols 5)) =
       [PostMessage ResourceUploadThread (AddCustomSymbolsMessage (CustomSymbols 5)) Normal]"
  by (simp add: AddCustomSymbols_def facade_defs engine0_def)

text \<open>
  C8, amended. \<open>AddRouteSegment\<close> and \<open>AddRoutePreviewSegment\<close> each take the next
  identifier from the generator (the counter plus one), post exactly one creation
  message that carries it (to the resource-upload thread and to the render thread,
  at normal priority) and return it. \<open>AddCustomSymbols\<close> posts exactly one message
  with the symbols to the resource-upload thread; it takes no identifier and returns
  nothing.
\<close>

theorem route_segments_get_an_identifier:
  "AddRouteSegment s segment =
     (m_drapeIdGenerator s + 1,
      s\<lparr>m_drapeIdGenerator := m_drapeIdGenerator s + 1,
        calls := calls s @ [DrapeIdGeneratorMutexLock, DrapeIdGeneratorMutexUnlock,
                            PostMessage ResourceUploadThread
                              (AddRouteSegmentMessage (m_drapeIdGenerator s + 1) segment)
                              Normal]\<rparr>)
   \<and> AddRoutePreviewSegment s startPt finishPt =
     (m_drapeIdGenerator s + 1,
      s\<lparr>m_drapeIdGenerator := m_drapeIdGenerator s + 1,
        calls := calls s @ [DrapeIdGeneratorMutexLock, DrapeIdGeneratorMutexUnlock,
                            PostMessage RenderThread
                              (AddRoutePreviewSegmentMessage (m_drapeIdGenerator s + 1)
                                 startPt finishPt) Normal]\<rparr>)
   \<and> AddCustomSymbols s symbols =
      s\<lparr>calls := calls s @ [PostMessage ResourceUploadThread
                              (AddCustomSymbolsMessage symbols) Normal]\<rparr>"
  by (simp add: AddRouteSegment_def AddRoutePreviewSegment_def AddCustomSymbols_def
      GenerateDrapeID_def facade_defs Let_def)

theorem route_segments_witness:
  "fst (AddRouteSegment engine0 (RouteSegment 3)) = 1
   \<and> calls (snd (AddRouteSegment engine0 (RouteSegment 3))) =
       [DrapeIdGeneratorMutexLock, DrapeIdGeneratorMutexUnlock,
        PostMessage ResourceUploadThread (AddRouteSegmentMessage 1 (RouteSegment 3)) Normal]
   \<and> fst (AddRoutePreviewSegment (snd (AddRouteSegment engine0 (RouteSegment 3)))
            (0, 0) (1, 1)) = 2"
  using route_segments_get_an_identifier
      [of engine0 "RouteSegment 3" "(0, 0)" "(1, 1)" "CustomSymbols 5"]
    route_segments_get_an_identifier
      [of "snd (AddRouteSegment engine0 (RouteSegment 3))" "RouteSegment 3" "(0, 0)" "(1, 1)"
          "CustomSymbols 5"]
  by (simp add: engine0_def)

subsection \<open>Font scale\<close>

text \<open>
  C9. \<open>SetFontScaleFactor\<close> applies \<open>min (max x 0.5) 2.0\<close> for every requested
  factor \<open>x\<close>, and does nothing else: a request of 5.0 applies 2.0, a request of
  \<open>-1.0\<close> applies 0.5, and a factor between 0.5 and 2.0 is applied as it is.
\<close>

theorem SetFontScaleFactor_clamps:
  "SetFontScaleFactor s x =
     s\<lparr>calls := calls s @ [VisualParamsSetFontScale (min (max x 0.5) 2.0)]\<rparr>
   \<and> SetFontScaleFactor s 5.0 = s\<lparr>calls := calls s @ [VisualParamsSetFontScale 2.0]\<rparr>
   \<and> SetFontScaleFactor s (- 1.0) = s\<lparr>calls := calls s @ [VisualParamsSetFontScale 0.5]\<rparr>
   \<and> (0.5 \<le> x \<and> x \<le> 2.0 \<longrightarrow>
        SetFontScaleFactor s x = s\<lparr>calls := calls s @ [VisualParamsSetFontScale x]\<rparr>)"
  by (auto simp: SetFontScaleFactor_def clamp_def kMinScaleFactor_def kMaxScaleFactor_def
      call_def Let_def)

theorem SetFontScaleFactor_witness:
  "(0.5 :: real) \<le> 1.25 \<and> (1.25 :: real) \<le> 2.0
   \<and> calls (SetFontScaleFactor engine0 1.25) = [VisualParamsSetFontScale 1.25]
   \<and> calls (SetFontScaleFactor engine0 5.0) = [VisualParamsSetFontScale 2.0]
   \<and> calls (SetFontScaleFactor engine0 (- 1.0)) = [VisualParamsSetFontScale 0.5]"
  using SetFontScaleFactor_clamps [of engine0 "1.25"]
  by (simp add: engine0_def)

end
